theory Spec2Isabelle
  imports Complex_Main
begin

section \<open>Values of numpy's float64\<close>

text \<open>
  The arrays of \<^verbatim>\<open>image_features.py\<close> hold float64 values. A value is a finite
  number or one of the three special values of IEEE 754: the code divides by sums that
  can be zero and takes square roots of differences that can be negative, and numpy
  answers those with \<^verbatim>\<open>inf\<close> or \<^verbatim>\<open>nan\<close> (and a warning), not with an
  exception.

  A finite value is modelled by a real number and every operation gives the exact result,
  where IEEE 754 gives the float64 nearest to it: rounding, overflow and the sign of zero
  are not part of this model. A finite result below is the value of the expression the
  code evaluates; the float64 that the code returns is that value up to rounding, and is
  that value itself where every intermediate result is a float64 (small counts and dyadic
  fractions). No statement below equates the results of two different orders of
  evaluation: such a property is outside this model.
\<close>

datatype f64 = Fin real | PInf | NInf | NaN

definition inf_of :: "bool \<Rightarrow> f64" where
  "inf_of positive = (if positive then PInf else NInf)"

instantiation f64 :: "{zero, one, plus, uminus, minus, times, inverse}"
begin

definition zero_f64 :: f64 where
  "0 = Fin 0"

definition one_f64 :: f64 where
  "1 = Fin 1"

fun plus_f64 :: "f64 \<Rightarrow> f64 \<Rightarrow> f64" where
  "NaN + _ = NaN"
| "_ + NaN = NaN"
| "Fin x + Fin y = Fin (x + y)"
| "Fin _ + PInf = PInf"
| "Fin _ + NInf = NInf"
| "PInf + Fin _ = PInf"
| "NInf + Fin _ = NInf"
| "PInf + PInf = PInf"
| "NInf + NInf = NInf"
| "PInf + NInf = NaN"
| "NInf + PInf = NaN"

fun uminus_f64 :: "f64 \<Rightarrow> f64" where
  "- Fin x = Fin (- x)"
| "- PInf = NInf"
| "- NInf = PInf"
| "- NaN = NaN"

definition minus_f64 :: "f64 \<Rightarrow> f64 \<Rightarrow> f64" where
  "(a :: f64) - b = a + (- b)"

fun times_f64 :: "f64 \<Rightarrow> f64 \<Rightarrow> f64" where
  "NaN * _ = NaN"
| "_ * NaN = NaN"
| "Fin x * Fin y = Fin (x * y)"
| "Fin x * PInf = (if x = 0 then NaN else inf_of (0 < x))"
| "Fin x * NInf = (if x = 0 then NaN else inf_of (x < 0))"
| "PInf * Fin y = (if y = 0 then NaN else inf_of (0 < y))"
| "NInf * Fin y = (if y = 0 then NaN else inf_of (y < 0))"
| "PInf * PInf = PInf"
| "NInf * NInf = PInf"
| "PInf * NInf = NInf"
| "NInf * PInf = NInf"

text \<open>Division by a zero is division by \<^verbatim>\<open>+0.0\<close>: \<^verbatim>\<open>0/0\<close> is nan, \<^verbatim>\<open>x/0\<close> is an
  infinity of the sign of \<^verbatim>\<open>x\<close>.\<close>

fun divide_f64 :: "f64 \<Rightarrow> f64 \<Rightarrow> f64" where
  "NaN div _ = NaN"
| "_ div NaN = NaN"
| "Fin x div Fin y =
     (if y \<noteq> 0 then Fin (x / y) else if x = 0 then NaN else inf_of (0 < x))"
| "Fin _ div PInf = Fin 0"
| "Fin _ div NInf = Fin 0"
| "PInf div Fin y = inf_of (0 \<le> y)"
| "NInf div Fin y = inf_of (y < 0)"
| "PInf div PInf = NaN"
| "PInf div NInf = NaN"
| "NInf div PInf = NaN"
| "NInf div NInf = NaN"

definition inverse_f64 :: "f64 \<Rightarrow> f64" where
  "inverse (a :: f64) = Fin 1 div a"

instance ..

end

text \<open>\<open>sum_list\<close> is defined for a monoid. Addition of exact values is one; addition of
  float64 values in IEEE arithmetic is not associative, by rounding.\<close>

instance f64 :: monoid_add
proof
  fix u v w :: f64
  show "0 + u = u"
    unfolding zero_f64_def by (cases u; simp)
  show "u + 0 = u"
    unfolding zero_f64_def by (cases u; simp)
  show "(u + v) + w = u + (v + w)"
    by (cases u; cases v; cases w; simp)
qed

text \<open>\<^verbatim>\<open>np.sqrt\<close>: nan below zero.\<close>

fun np_sqrt :: "f64 \<Rightarrow> f64" where
  "np_sqrt (Fin x) = (if x < 0 then NaN else Fin (sqrt x))"
| "np_sqrt PInf = PInf"
| "np_sqrt NInf = NaN"
| "np_sqrt NaN = NaN"

text \<open>\<^verbatim>\<open>x ** 2\<close>, \<^verbatim>\<open>np.power(x, 3)\<close> and \<^verbatim>\<open>np.power(x, 4)\<close>.\<close>

definition sq :: "f64 \<Rightarrow> f64" where
  "sq x = x * x"

definition cube :: "f64 \<Rightarrow> f64" where
  "cube x = x * x * x"

definition fourth :: "f64 \<Rightarrow> f64" where
  "fourth x = x * x * x * x"

text \<open>The comparisons \<^verbatim>\<open>==\<close>, \<^verbatim>\<open>!=\<close> and \<^verbatim>\<open><=\<close> of float64: a nan is equal to
  nothing, itself included, and is in no order with anything.\<close>

fun np_eq :: "f64 \<Rightarrow> f64 \<Rightarrow> bool" where
  "np_eq NaN _ = False"
| "np_eq _ NaN = False"
| "np_eq a b = (a = b)"

definition np_ne :: "f64 \<Rightarrow> f64 \<Rightarrow> bool" where
  "np_ne a b = (\<not> np_eq a b)"

fun np_le :: "f64 \<Rightarrow> f64 \<Rightarrow> bool" where
  "np_le NaN _ = False"
| "np_le _ NaN = False"
| "np_le NInf _ = True"
| "np_le _ PInf = True"
| "np_le (Fin x) (Fin y) = (x \<le> y)"
| "np_le (Fin _) NInf = False"
| "np_le PInf (Fin _) = False"
| "np_le PInf NInf = False"

definition is_nan :: "f64 \<Rightarrow> bool" where
  "is_nan a = (a = NaN)"


section \<open>Arrays\<close>

text \<open>
  A one-dimensional array of length \<open>n\<close> is its index function on \<open>0..<n\<close>. A square
  two-dimensional array (a co-occurrence matrix, or the slice \<^verbatim>\<open>[:, :, d, a]\<close> of
  the four-dimensional array of \<^verbatim>\<open>greycomatrix\<close>) is its side and its index function:
  \<open>cell m i j\<close> is \<^verbatim>\<open>m[i, j]\<close>, read for \<open>i, j < side m\<close> only.
\<close>

record matrix =
  side :: nat
  cell :: "nat \<Rightarrow> nat \<Rightarrow> f64"

text \<open>The matrix of a list of rows of finite values, for writing inputs down.\<close>

definition of_rows :: "real list list \<Rightarrow> matrix" where
  "of_rows rows = \<lparr>side = length rows, cell = (\<lambda>i j. Fin (rows ! i ! j))\<rparr>"

text \<open>\<^verbatim>\<open>.sum()\<close> of a one-dimensional array of length \<open>n\<close>, \<^verbatim>\<open>np.dot\<close> of two of
  them, and \<^verbatim>\<open>.sum()\<close> of a two-dimensional array of shape \<open>(n, n)\<close>.\<close>

definition np_sum :: "nat \<Rightarrow> (nat \<Rightarrow> f64) \<Rightarrow> f64" where
  "np_sum n v = sum_list (map v [0..<n])"

definition np_dot :: "nat \<Rightarrow> (nat \<Rightarrow> f64) \<Rightarrow> (nat \<Rightarrow> f64) \<Rightarrow> f64" where
  "np_dot n v w = np_sum n (\<lambda>t. v t * w t)"

definition np_sum2 :: "nat \<Rightarrow> (nat \<Rightarrow> nat \<Rightarrow> f64) \<Rightarrow> f64" where
  "np_sum2 n a = np_sum n (\<lambda>i. np_sum n (\<lambda>j. a i j))"

text \<open>\<^verbatim>\<open>matrix.sum(axis=0)\<close> adds along the first index (one entry per column),
  \<^verbatim>\<open>matrix.sum(axis=1)\<close> along the second (one entry per row).\<close>

definition sum_axis0 :: "nat \<Rightarrow> (nat \<Rightarrow> nat \<Rightarrow> f64) \<Rightarrow> nat \<Rightarrow> f64" where
  "sum_axis0 n a j = np_sum n (\<lambda>i. a i j)"

definition sum_axis1 :: "nat \<Rightarrow> (nat \<Rightarrow> nat \<Rightarrow> f64) \<Rightarrow> nat \<Rightarrow> f64" where
  "sum_axis1 n a i = np_sum n (\<lambda>j. a i j)"

text \<open>\<^verbatim>\<open>np.repeat(v, n, axis=0)\<close> repeats each entry \<open>n\<close> times in place;
  \<^verbatim>\<open>.reshape(n, n)\<close> reads a flat array in row-major order; \<^verbatim>\<open>.T\<close> swaps the
  indices.\<close>

definition np_repeat :: "nat \<Rightarrow> (nat \<Rightarrow> f64) \<Rightarrow> nat \<Rightarrow> f64" where
  "np_repeat n v t = v (t div n)"

definition np_reshape :: "nat \<Rightarrow> (nat \<Rightarrow> f64) \<Rightarrow> nat \<Rightarrow> nat \<Rightarrow> f64" where
  "np_reshape n flat i j = flat (i * n + j)"

definition np_T :: "(nat \<Rightarrow> nat \<Rightarrow> f64) \<Rightarrow> nat \<Rightarrow> nat \<Rightarrow> f64" where
  "np_T a i j = a j i"

text \<open>\<^verbatim>\<open>.ravel()\<close> of an array of shape \<open>(n, n)\<close>: the flat array of length
  \<open>n * n\<close> in row-major order.\<close>

definition ravel :: "nat \<Rightarrow> (nat \<Rightarrow> nat \<Rightarrow> 'a) \<Rightarrow> nat \<Rightarrow> 'a" where
  "ravel n a t = a (t div n) (t mod n)"

text \<open>\<^verbatim>\<open>np.apply_over_axes(np.sum, a, axes=(0, 1))[0, 0]\<close>: the sum along the first
  index, then along the second.\<close>

definition apply_sum_over_axes :: "nat \<Rightarrow> (nat \<Rightarrow> nat \<Rightarrow> f64) \<Rightarrow> f64" where
  "apply_sum_over_axes n a = np_sum n (sum_axis0 n a)"

text \<open>\<^verbatim>\<open>np.arange\<close>, read as float64 where it meets one.\<close>

definition arange :: "nat \<Rightarrow> f64" where
  "arange t = Fin (real t)"


section \<open>The goodness-of-fit score: \<^verbatim>\<open>ImageFeatures.compute_chi_sum\<close>\<close>

text \<open>
  \<^verbatim>\<open>np.divide(expected_values, matrix_rc_totals, where=(matrix_rc_totals != 0))\<close> is
  called without \<^verbatim>\<open>out=\<close>: numpy allocates the result array without initialising it
  and writes a quotient only where the condition holds, so a cell where the condition
  fails keeps what the fresh array held. That content is the parameter \<open>out\<close>.
\<close>

definition compute_chi_sum :: "(nat \<Rightarrow> nat \<Rightarrow> f64) \<Rightarrow> matrix \<Rightarrow> f64" where
  "compute_chi_sum out matrix =
     (let n = side matrix;
          row_matrix = np_reshape n (np_repeat n (sum_axis0 n (cell matrix)));
          col_matrix = np_T (np_reshape n (np_repeat n (sum_axis1 n (cell matrix))));
          matrix_rc_totals =
            (\<lambda>i j. row_matrix i j * col_matrix i j / np_sum2 n (cell matrix));
          expected_values = (\<lambda>i j. sq (cell matrix i j - matrix_rc_totals i j))
      in np_sum2 n (\<lambda>i j.
           if np_ne (matrix_rc_totals i j) 0
           then expected_values i j / matrix_rc_totals i j
           else out i j))"


section \<open>The nine features: \<^verbatim>\<open>ImageFeatures.create_haralick\<close>\<close>

text \<open>Each definition is one variable of the source function, in the order of the
  source; \<open>I\<close> and \<open>J\<close> of \<^verbatim>\<open>np.ogrid\<close> are the two indices, as integers.\<close>

definition homo_weight :: "nat \<Rightarrow> nat \<Rightarrow> f64" where
  "homo_weight i j = Fin 1 / (Fin 1 + Fin (of_int ((int i - int j)\<^sup>2)))"

definition homo :: "matrix \<Rightarrow> f64" where
  "homo m = apply_sum_over_axes (side m) (\<lambda>i j. cell m i j * homo_weight i j)"

definition con_weight :: "nat \<Rightarrow> nat \<Rightarrow> f64" where
  "con_weight i j = Fin (of_int ((int i - int j)\<^sup>2))"

definition contrast :: "matrix \<Rightarrow> f64" where
  "contrast m = apply_sum_over_axes (side m) (\<lambda>i j. cell m i j * con_weight i j)"

definition asm :: "matrix \<Rightarrow> f64" where
  "asm m = apply_sum_over_axes (side m) (\<lambda>i j. sq (cell m i j))"

definition energy :: "matrix \<Rightarrow> f64" where
  "energy m = np_sqrt (asm m)"

text \<open>\<^verbatim>\<open>p = matrix / matrix.sum()\<close>, \<^verbatim>\<open>px = p.sum(0)\<close>, \<^verbatim>\<open>py = p.sum(1)\<close>.\<close>

definition p :: "matrix \<Rightarrow> nat \<Rightarrow> nat \<Rightarrow> f64" where
  "p m i j = cell m i j / np_sum2 (side m) (cell m)"

definition px :: "matrix \<Rightarrow> nat \<Rightarrow> f64" where
  "px m = sum_axis0 (side m) (p m)"

definition py :: "matrix \<Rightarrow> nat \<Rightarrow> f64" where
  "py m = sum_axis1 (side m) (p m)"

definition ux :: "matrix \<Rightarrow> f64" where
  "ux m = np_dot (side m) (px m) arange"

definition uy :: "matrix \<Rightarrow> f64" where
  "uy m = np_dot (side m) (py m) arange"

definition vx :: "matrix \<Rightarrow> f64" where
  "vx m = np_dot (side m) (px m) (\<lambda>t. Fin (real (t\<^sup>2))) - sq (ux m)"

definition vy :: "matrix \<Rightarrow> f64" where
  "vy m = np_dot (side m) (py m) (\<lambda>t. Fin (real (t\<^sup>2))) - sq (uy m)"

definition sx :: "matrix \<Rightarrow> f64" where
  "sx m = np_sqrt (vx m)"

definition sy :: "matrix \<Rightarrow> f64" where
  "sy m = np_sqrt (vy m)"

definition ij :: "nat \<Rightarrow> nat \<Rightarrow> f64" where
  "ij i j = Fin (real (i * j))"

definition corr :: "matrix \<Rightarrow> f64" where
  "corr m =
     (if np_eq (sx m) (Fin 0) \<or> np_eq (sy m) (Fin 0) then Fin 1
      else (Fin 1 / sx m / sy m) *
           (np_dot (side m * side m) (ravel (side m) ij) (ravel (side m) (p m)) - ux m * uy m))"

text \<open>\<^verbatim>\<open>px_plus_y[i] = tmp1[1][tmp1[0] == i].sum()\<close>: of the flat matrix, the entries
  at the positions where the flat \<open>I + J\<close> is \<open>i\<close>, added up.\<close>

definition px_plus_y :: "matrix \<Rightarrow> nat \<Rightarrow> f64" where
  "px_plus_y m i =
     sum_list (map (ravel (side m) (cell m))
       (filter (\<lambda>t. ravel (side m) (\<lambda>I J. I + J) t = i) [0..<side m * side m]))"

definition mean :: "matrix \<Rightarrow> f64" where
  "mean m = np_dot (2 * side m) arange (px_plus_y m)"

definition stdev :: "matrix \<Rightarrow> f64" where
  "stdev m =
     np_sqrt (np_dot (2 * side m) (\<lambda>t. Fin (real (t\<^sup>2))) (px_plus_y m) - sq (mean m))"

definition shade_weight :: "matrix \<Rightarrow> nat \<Rightarrow> nat \<Rightarrow> f64" where
  "shade_weight m i j = cube (Fin (real (i + j)) - ux m - uy m)"

definition prom_weight :: "matrix \<Rightarrow> nat \<Rightarrow> nat \<Rightarrow> f64" where
  "prom_weight m i j = fourth (Fin (real (i + j)) - ux m - uy m)"

definition cls_shade :: "matrix \<Rightarrow> f64" where
  "cls_shade m = apply_sum_over_axes (side m) (\<lambda>i j. cell m i j * shade_weight m i j)"

definition cls_prom :: "matrix \<Rightarrow> f64" where
  "cls_prom m = apply_sum_over_axes (side m) (\<lambda>i j. cell m i j * prom_weight m i j)"

definition create_haralick :: "matrix \<Rightarrow> f64 list" where
  "create_haralick m =
     [homo m, asm m, contrast m, energy m, corr m, mean m, stdev m, cls_shade m, cls_prom m]"


section \<open>The batch: \<^verbatim>\<open>FeaturesLists.create_matrix_list\<close>\<close>

text \<open>
  \<^verbatim>\<open>skimage.feature.texture.greycomatrix\<close> is not part of the repository: it is the
  parameter \<open>gcm\<close>, a function of the image, the distances, the angles and the two
  flags, taken to return for every input. Its result has shape \<open>(L, L, D, A)\<close>; it is
  modelled by its slices: \<open>r d a\<close> is \<^verbatim>\<open>r[:, :, d, a]\<close>, a square matrix.
\<close>

type_synonym glcm = "nat \<Rightarrow> nat \<Rightarrow> matrix"

type_synonym 'img greycomatrix = "'img \<Rightarrow> int list \<Rightarrow> int list \<Rightarrow> bool \<Rightarrow> bool \<Rightarrow> glcm"

definition create_matrix ::
  "'img greycomatrix \<Rightarrow> 'img \<Rightarrow> int list option \<Rightarrow> int list option \<Rightarrow> bool \<Rightarrow> bool \<Rightarrow> glcm"
where
  "create_matrix gcm img distance angle symmetric normalise =
     (let distance = (case distance of None \<Rightarrow> [1] | Some ds \<Rightarrow> ds);
          angle = (case angle of None \<Rightarrow> [0] | Some as \<Rightarrow> as)
      in gcm img distance angle symmetric normalise)"

text \<open>The score grid \<^verbatim>\<open>chisum\<close>, of shape \<open>(len(distances), len(angles))\<close>.\<close>

record grid =
  nrows :: nat
  ncols :: nat
  entry :: "nat \<Rightarrow> nat \<Rightarrow> f64"

definition np_zeros :: "nat \<Rightarrow> nat \<Rightarrow> grid" where
  "np_zeros r c = \<lparr>nrows = r, ncols = c, entry = (\<lambda>_ _. Fin 0)\<rparr>"

definition set_item :: "grid \<Rightarrow> nat \<times> nat \<Rightarrow> f64 \<Rightarrow> grid" where
  "set_item g pos v = g\<lparr>entry := (entry g)(fst pos := (entry g (fst pos))(snd pos := v))\<rparr>"

definition flat :: "grid \<Rightarrow> f64 list" where
  "flat g = concat (map (\<lambda>d. map (entry g d) [0..<ncols g]) [0..<nrows g])"

text \<open>
  \<^verbatim>\<open>np.argmax\<close> of a flat float64 array, as numpy's loop runs: the first entry is the
  maximum so far; a later entry replaces it when it is not \<^verbatim>\<open><=\<close> the maximum so
  far, and the loop stops at a nan. So the result is the index of the first nan, or of
  the first occurrence of the greatest entry. An empty array is a \<^verbatim>\<open>ValueError\<close>.
\<close>

datatype error = ValueError | IndexError | UnboundLocalError

fun argmax_loop :: "f64 list \<Rightarrow> nat \<Rightarrow> f64 \<Rightarrow> nat \<Rightarrow> nat" where
  "argmax_loop [] i mp max_ind = max_ind"
| "argmax_loop (x # xs) i mp max_ind =
     (if is_nan mp then max_ind
      else if \<not> np_le x mp then argmax_loop xs (Suc i) x i
      else argmax_loop xs (Suc i) mp max_ind)"

fun argmax :: "f64 list \<Rightarrow> error + nat" where
  "argmax [] = Inl ValueError"
| "argmax (x # xs) = Inr (argmax_loop xs 1 x 0)"

definition unravel_index :: "nat \<Rightarrow> nat \<times> nat \<Rightarrow> nat \<times> nat" where
  "unravel_index k shape = (k div snd shape, k mod snd shape)"

text \<open>Indexing a Python list with a non-negative index.\<close>

definition getitem :: "'a list \<Rightarrow> nat \<Rightarrow> error + 'a" where
  "getitem xs i = (if i < length xs then Inr (xs ! i) else Inl IndexError)"

text \<open>
  The local variables of \<^verbatim>\<open>create_matrix_list\<close> that the two loops change.
  \<open>max_chi\<close> is \<open>None\<close> while the name is unbound. \<open>allocations\<close> counts the result
  arrays that \<^verbatim>\<open>np.divide\<close> has allocated in \<^verbatim>\<open>compute_chi_sum\<close>: the parameter
  \<open>fresh\<close> of the functions below gives, for each count, what the array allocated at
  that count holds before the quotients are written.
\<close>

record state =
  chisum :: grid
  max_chi :: "(nat \<times> nat) option"
  matrix_list :: "glcm list"
  inputs_list :: "(int \<times> int) list"
  haralick_list :: "f64 list list"
  allocations :: nat

text \<open>The body of the inner loop, for one \<open>perm\<close>.\<close>

definition score_perm ::
  "(nat \<Rightarrow> nat \<Rightarrow> nat \<Rightarrow> f64) \<Rightarrow> glcm \<Rightarrow> int list \<Rightarrow> int list \<Rightarrow> nat \<times> nat \<Rightarrow> state
     \<Rightarrow> error + state"
where
  "score_perm fresh non_norm_mat distances angles perm st =
     (let chisum' = set_item (chisum st) perm
            (compute_chi_sum (fresh (allocations st)) (non_norm_mat (fst perm) (snd perm)))
      in case argmax (flat chisum') of
           Inl e \<Rightarrow> Inl e
         | Inr k \<Rightarrow>
             (let max_chi' = unravel_index k (nrows chisum', ncols chisum')
              in case getitem distances (fst max_chi') of
                   Inl e \<Rightarrow> Inl e
                 | Inr d \<Rightarrow>
                     (case getitem angles (snd max_chi') of
                        Inl e \<Rightarrow> Inl e
                      | Inr a \<Rightarrow>
                          Inr (st\<lparr>chisum := chisum', max_chi := Some max_chi',
                                  inputs_list := inputs_list st @ [(d, a)],
                                  allocations := Suc (allocations st)\<rparr>))))"

text \<open>The inner loop, \<^verbatim>\<open>for i, perm in enumerate(perms)\<close>.\<close>

fun scan_perms ::
  "(nat \<Rightarrow> nat \<Rightarrow> nat \<Rightarrow> f64) \<Rightarrow> glcm \<Rightarrow> int list \<Rightarrow> int list \<Rightarrow> (nat \<times> nat) list \<Rightarrow> state
     \<Rightarrow> error + state"
where
  "scan_perms fresh non_norm_mat distances angles [] st = Inr st"
| "scan_perms fresh non_norm_mat distances angles (perm # perms) st =
     (case score_perm fresh non_norm_mat distances angles perm st of
        Inl e \<Rightarrow> Inl e
      | Inr st' \<Rightarrow> scan_perms fresh non_norm_mat distances angles perms st')"

text \<open>The body of the outer loop, for one image.\<close>

definition process_image ::
  "'img greycomatrix \<Rightarrow> (nat \<Rightarrow> nat \<Rightarrow> nat \<Rightarrow> f64) \<Rightarrow> int list \<Rightarrow> int list \<Rightarrow> (nat \<times> nat) list
     \<Rightarrow> 'img \<Rightarrow> state \<Rightarrow> error + state"
where
  "process_image gcm fresh distances angles perms img st =
     (let non_norm_mat = create_matrix gcm img (Some distances) (Some angles) False False
      in case scan_perms fresh non_norm_mat distances angles perms st of
           Inl e \<Rightarrow> Inl e
         | Inr st1 \<Rightarrow>
             (case max_chi st1 of
                None \<Rightarrow> Inl UnboundLocalError
              | Some mc \<Rightarrow>
                  (case getitem distances (fst mc) of
                     Inl e \<Rightarrow> Inl e
                   | Inr d \<Rightarrow>
                       (case getitem angles (snd mc) of
                          Inl e \<Rightarrow> Inl e
                        | Inr a \<Rightarrow>
                            (let optimal_matrix =
                                   create_matrix gcm img (Some [d]) (Some [a]) False True;
                                 haralick = create_haralick (optimal_matrix 0 0)
                             in Inr (st1\<lparr>matrix_list := matrix_list st1 @ [optimal_matrix],
                                         haralick_list := haralick_list st1 @ [haralick]\<rparr>))))))"

text \<open>The outer loop, \<^verbatim>\<open>for image in image_list\<close>.\<close>

fun process_images ::
  "'img greycomatrix \<Rightarrow> (nat \<Rightarrow> nat \<Rightarrow> nat \<Rightarrow> f64) \<Rightarrow> int list \<Rightarrow> int list \<Rightarrow> (nat \<times> nat) list
     \<Rightarrow> 'img list \<Rightarrow> state \<Rightarrow> error + state"
where
  "process_images gcm fresh distances angles perms [] st = Inr st"
| "process_images gcm fresh distances angles perms (img # imgs) st =
     (case process_image gcm fresh distances angles perms img st of
        Inl e \<Rightarrow> Inl e
      | Inr st' \<Rightarrow> process_images gcm fresh distances angles perms imgs st')"

definition create_matrix_list ::
  "'img greycomatrix \<Rightarrow> (nat \<Rightarrow> nat \<Rightarrow> nat \<Rightarrow> f64) \<Rightarrow> 'img list \<Rightarrow> int list \<Rightarrow> int list
     \<Rightarrow> error + glcm list \<times> (int \<times> int) list \<times> f64 list list"
where
  "create_matrix_list gcm fresh image_list distances angles =
     (let st0 = \<lparr>chisum = np_zeros (length distances) (length angles), max_chi = None,
                 matrix_list = [], inputs_list = [], haralick_list = [], allocations = 0\<rparr>;
          perms = List.product [0..<length distances] [0..<length angles]
      in case process_images gcm fresh distances angles perms image_list st0 of
           Inl e \<Rightarrow> Inl e
         | Inr st \<Rightarrow> Inr (matrix_list st, inputs_list st, haralick_list st))"


section \<open>The chi-square statistic of the specification\<close>

text \<open>
  The score as the specification words it, for comparison with \<open>compute_chi_sum\<close>:
  the expectation of cell \<open>(i, j)\<close> is the total of row \<open>i\<close> times the total of column
  \<open>j\<close> over the total of the matrix, and a cell whose expectation is zero adds zero.
\<close>

definition row_total :: "matrix \<Rightarrow> nat \<Rightarrow> f64" where
  "row_total m i = np_sum (side m) (\<lambda>j. cell m i j)"

definition col_total :: "matrix \<Rightarrow> nat \<Rightarrow> f64" where
  "col_total m j = np_sum (side m) (\<lambda>i. cell m i j)"

definition expectation_spec :: "matrix \<Rightarrow> nat \<Rightarrow> nat \<Rightarrow> f64" where
  "expectation_spec m i j = row_total m i * col_total m j / np_sum2 (side m) (cell m)"

definition chi_square_spec :: "matrix \<Rightarrow> f64" where
  "chi_square_spec m =
     np_sum2 (side m) (\<lambda>i j.
       if np_ne (expectation_spec m i j) (Fin 0)
       then sq (cell m i j - expectation_spec m i j) / expectation_spec m i j
       else Fin 0)"

text \<open>What the code computes as \<^verbatim>\<open>matrix_rc_totals[i, j]\<close>.\<close>

definition rc_total :: "matrix \<Rightarrow> nat \<Rightarrow> nat \<Rightarrow> f64" where
  "rc_total m i j =
     sum_axis0 (side m) (cell m) i * sum_axis1 (side m) (cell m) j / np_sum2 (side m) (cell m)"


section \<open>The loops in closed form\<close>

text \<open>
  Names for what the lemmas below show the loops to compute. \<open>pick g\<close> is
  \<^verbatim>\<open>np.unravel_index(np.argmax(g, axis=None), g.shape)\<close> for a non-empty grid and
  \<open>chosen\<close> the pair of distance and angle there.
\<close>

definition pick :: "grid \<Rightarrow> nat \<times> nat" where
  "pick g = (case argmax (flat g) of Inr k \<Rightarrow> unravel_index k (nrows g, ncols g) | Inl _ \<Rightarrow> (0, 0))"

definition chosen :: "int list \<Rightarrow> int list \<Rightarrow> grid \<Rightarrow> int \<times> int" where
  "chosen distances angles g = (distances ! fst (pick g), angles ! snd (pick g))"

text \<open>
  \<open>scores fresh c mat D A\<close> is the score grid of one image, flat, when all its
  candidates have been scored and the first of them met the result array of count \<open>c\<close>;
  \<open>best\<close> is the position of its maximum, \<open>optimal_offset\<close> the pair of distance
  and angle there and \<open>optimal_matrix_of\<close> the normalised matrix requested for that
  pair.
\<close>

definition scores :: "(nat \<Rightarrow> nat \<Rightarrow> nat \<Rightarrow> f64) \<Rightarrow> nat \<Rightarrow> glcm \<Rightarrow> nat \<Rightarrow> nat \<Rightarrow> f64 list" where
  "scores fresh c mat D A =
     map (\<lambda>t. compute_chi_sum (fresh (c + t)) (mat (t div A) (t mod A))) [0..<D * A]"

definition best :: "(nat \<Rightarrow> nat \<Rightarrow> nat \<Rightarrow> f64) \<Rightarrow> nat \<Rightarrow> glcm \<Rightarrow> nat \<Rightarrow> nat \<Rightarrow> nat \<times> nat" where
  "best fresh c mat D A =
     (case argmax (scores fresh c mat D A) of
        Inr k \<Rightarrow> unravel_index k (D, A)
      | Inl _ \<Rightarrow> (0, 0))"

definition optimal_offset ::
  "'img greycomatrix \<Rightarrow> (nat \<Rightarrow> nat \<Rightarrow> nat \<Rightarrow> f64) \<Rightarrow> int list \<Rightarrow> int list \<Rightarrow> 'img \<Rightarrow> nat \<Rightarrow> int \<times> int"
where
  "optimal_offset gcm fresh distances angles img c =
     (let b = best fresh c (create_matrix gcm img (Some distances) (Some angles) False False)
                (length distances) (length angles)
      in (distances ! fst b, angles ! snd b))"

definition optimal_matrix_of ::
  "'img greycomatrix \<Rightarrow> (nat \<Rightarrow> nat \<Rightarrow> nat \<Rightarrow> f64) \<Rightarrow> int list \<Rightarrow> int list \<Rightarrow> 'img \<Rightarrow> nat \<Rightarrow> glcm"
where
  "optimal_matrix_of gcm fresh distances angles img c =
     (let off = optimal_offset gcm fresh distances angles img c
      in create_matrix gcm img (Some [fst off]) (Some [snd off]) False True)"


text \<open>
  \<open>scores_of_image gcm fresh distances angles image_list k\<close> are the scores of the
  candidates of image \<open>k\<close> of a batch, in scan order: candidate \<open>t\<close> of image \<open>k\<close>
  meets the result array of count \<open>k * D * A + t\<close>.
\<close>

definition scores_of_image ::
  "'img greycomatrix \<Rightarrow> (nat \<Rightarrow> nat \<Rightarrow> nat \<Rightarrow> f64) \<Rightarrow> int list \<Rightarrow> int list \<Rightarrow> 'img list \<Rightarrow> nat
     \<Rightarrow> f64 list"
where
  "scores_of_image gcm fresh distances angles image_list k =
     scores fresh (k * (length distances * length angles))
       (create_matrix gcm (image_list ! k) (Some distances) (Some angles) False False)
       (length distances) (length angles)"

text \<open>
  \<open>fill fresh mat c qs g\<close> is the score grid \<open>g\<close> after the inner loop has scored the
  candidates \<open>qs\<close>, the first of them with the result array of count \<open>c\<close>;
  \<open>partial_scores s old t\<close> is a flat grid that held \<open>old\<close> when the candidates \<open>0\<close>
  to \<open>t\<close> of an image with scores \<open>s\<close> have been written into it.
\<close>

fun fill ::
  "(nat \<Rightarrow> nat \<Rightarrow> nat \<Rightarrow> f64) \<Rightarrow> glcm \<Rightarrow> nat \<Rightarrow> (nat \<times> nat) list \<Rightarrow> grid \<Rightarrow> grid"
where
  "fill fresh mat c [] g = g"
| "fill fresh mat c (q # qs) g =
     fill fresh mat (Suc c) qs (set_item g q (compute_chi_sum (fresh c) (mat (fst q) (snd q))))"

definition partial_scores :: "f64 list \<Rightarrow> f64 list \<Rightarrow> nat \<Rightarrow> f64 list" where
  "partial_scores s old t = take (Suc t) s @ drop (Suc t) old"


section \<open>The best pair of a scan, as the specification words it\<close>

text \<open>
  For comparison with the pairs that the batch appends. \<open>first_maximum s b\<close>: position
  \<open>b\<close> holds a greatest value of the list \<open>s\<close> of scores and no position before it
  does. \<open>best_pair_known distances angles s t pr\<close>: of the candidates \<open>0\<close> to \<open>t\<close>
  of an image whose scores, in scan order, are \<open>s\<close>, the pair \<open>pr\<close> is the one with
  the best score, the first of them if several have it. Candidate \<open>b\<close> is the pair of
  \<open>distances[b div A]\<close> and \<open>angles[b mod A]\<close>.
\<close>

definition first_maximum :: "f64 list \<Rightarrow> nat \<Rightarrow> bool" where
  "first_maximum s b =
     (b < length s \<and> (\<forall>j < length s. np_le (s ! j) (s ! b)) \<and>
      (\<forall>j < b. \<not> np_le (s ! b) (s ! j)))"

definition best_pair_known :: "int list \<Rightarrow> int list \<Rightarrow> f64 list \<Rightarrow> nat \<Rightarrow> int \<times> int \<Rightarrow> bool" where
  "best_pair_known distances angles s t pr =
     (\<exists>b \<le> t. first_maximum (take (Suc t) s) b \<and>
        pr = (distances ! (b div length angles), angles ! (b mod length angles)))"


section \<open>Inputs for running the code\<close>

text \<open>
  To run the batch, \<open>gcm\<close> needs a value. \<open>pair_gcm\<close> is a co-occurrence builder
  over two grey levels, for images that are lists of rows of pixels: it counts the pairs
  of a pixel and its neighbour \<open>distance\<close> pixels to the right, for the angle 0, or
  \<open>distance\<close> pixels below, for any other angle; the counts are added to their
  transpose when \<open>symmetric\<close> and divided by their total when \<open>normed\<close> (by one when
  the total is zero), as \<^verbatim>\<open>greycomatrix\<close> does with the pairs it counts.
\<close>

type_synonym pixels = "nat list list"

definition normalised :: "matrix \<Rightarrow> matrix" where
  "normalised m =
     (let glcm_sums = np_sum2 (side m) (cell m);
          glcm_sums = (if np_eq glcm_sums (Fin 0) then Fin 1 else glcm_sums)
      in m\<lparr>cell := (\<lambda>i j. cell m i j / glcm_sums)\<rparr>)"

definition pairs :: "pixels \<Rightarrow> nat \<times> nat \<Rightarrow> (nat \<times> nat) list" where
  "pairs img off =
     map (\<lambda>(r, c). (img ! r ! c, img ! (r + fst off) ! (c + snd off)))
       (filter (\<lambda>(r, c). r + fst off < length img \<and> c + snd off < length (img ! r))
          (List.product [0..<length img] [0..<length (hd img)]))"

definition pair_gcm :: "pixels greycomatrix" where
  "pair_gcm img distances angles symmetric normed d a =
     (let off = (if angles ! a = 0 then (0, nat (distances ! d)) else (nat (distances ! d), 0));
          P = \<lparr>side = 2, cell = (\<lambda>i j. Fin (real (count_list (pairs img off) (i, j))))\<rparr>;
          P = (if symmetric then P\<lparr>cell := (\<lambda>i j. cell P i j + cell P j i)\<rparr> else P)
      in if normed then normalised P else P)"

text \<open>Three images of pixels 0 and 1, and result arrays that hold zeros.\<close>

definition image_a :: pixels where
  "image_a = [[0, 0, 1], [1, 1, 0]]"

definition image_b :: pixels where
  "image_b = [[0, 1, 0], [0, 1, 0]]"

definition image_c :: pixels where
  "image_c = [[0, 1], [1, 0]]"

definition zeroed :: "nat \<Rightarrow> nat \<Rightarrow> nat \<Rightarrow> f64" where
  "zeroed c i j = Fin 0"

definition returned_inputs ::
  "error + glcm list \<times> (int \<times> int) list \<times> f64 list list \<Rightarrow> (int \<times> int) list" where
  "returned_inputs r = (case r of Inr (ms, ins, hs) \<Rightarrow> ins | Inl e \<Rightarrow> [])"


section \<open>Sums over arrays\<close>

lemma np_sum_cong: "(\<And>i. i < n \<Longrightarrow> v i = w i) \<Longrightarrow> np_sum n v = np_sum n w"
  unfolding np_sum_def by (rule arg_cong [where f = sum_list]) simp

lemma np_sum2_cong:
  "(\<And>i j. i < n \<Longrightarrow> j < n \<Longrightarrow> a i j = b i j) \<Longrightarrow> np_sum2 n a = np_sum2 n b"
  unfolding np_sum2_def by (intro np_sum_cong) simp

lemma reshape_repeat: "j < n \<Longrightarrow> np_reshape n (np_repeat n v) i j = v i"
  by (simp add: np_reshape_def np_repeat_def)

lemma np_ne_zero: "np_ne a 0 = (a \<noteq> Fin 0)"
  by (cases a) (simp_all add: np_ne_def zero_f64_def)

lemma np_ne_Fin_zero: "np_ne a (Fin 0) = (a \<noteq> Fin 0)"
  by (cases a) (simp_all add: np_ne_def)


section \<open>The score, cell by cell\<close>

text \<open>
  \<^verbatim>\<open>row_matrix[i, j]\<close> is entry \<open>i\<close> of \<^verbatim>\<open>matrix.sum(axis=0)\<close>, the total of
  column \<open>i\<close>, and \<^verbatim>\<open>col_matrix[i, j]\<close> is entry \<open>j\<close> of \<^verbatim>\<open>matrix.sum(axis=1)\<close>,
  the total of row \<open>j\<close>: the expectation the code forms for cell \<open>(i, j)\<close> is the one
  the chi-square statistic has for cell \<open>(j, i)\<close>.
\<close>

lemma compute_chi_sum_cells:
  "compute_chi_sum out m =
     np_sum2 (side m) (\<lambda>i j.
       if rc_total m i j \<noteq> Fin 0 then sq (cell m i j - rc_total m i j) / rc_total m i j
       else out i j)"
  unfolding compute_chi_sum_def Let_def np_ne_zero
  by (rule np_sum2_cong) (simp add: rc_total_def reshape_repeat np_T_def)

lemma rc_total_transposed: "rc_total m i j = expectation_spec m j i"
proof -
  have "a * b = b * a" for a b :: f64
    by (cases a; cases b) (simp_all add: inf_of_def)
  then show ?thesis
    by (simp add: rc_total_def expectation_spec_def row_total_def col_total_def
        sum_axis0_def sum_axis1_def)
qed

lemmas chi_eval =
  compute_chi_sum_cells rc_total_def chi_square_spec_def expectation_spec_def row_total_def
  col_total_def np_ne_Fin_zero of_rows_def np_sum2_def np_sum_def sum_axis0_def
  sum_axis1_def sq_def minus_f64_def inf_of_def


text \<open>Sums of finite values, and sums that meet a nan.\<close>

lemma np_sum_Fin: "np_sum n (\<lambda>i. Fin (f i)) = Fin (\<Sum>i = 0..<n. f i)"
  unfolding np_sum_def by (induction n) (simp_all add: zero_f64_def)

lemma nan_absorbs [simp]:
  "a + NaN = NaN" "a - NaN = NaN" "NaN - a = NaN" "a * NaN = NaN" "a / NaN = NaN"
  by (cases a; simp add: minus_f64_def)+

lemma np_sum_const_nan: "0 < n \<Longrightarrow> np_sum n (\<lambda>i. NaN) = NaN"
  unfolding np_sum_def by (induction n) simp_all

lemma np_sum2_Fin: "np_sum2 n (\<lambda>i j. Fin (f i j)) = Fin (\<Sum>i = 0..<n. \<Sum>j = 0..<n. f i j)"
  by (simp add: np_sum2_def np_sum_Fin)


section \<open>The maximum of the score grid\<close>

lemma argmax_loop_bound:
  "max_ind < i \<Longrightarrow> argmax_loop xs i mp max_ind < i + length xs"
proof (induction xs arbitrary: i mp max_ind)
  case Nil
  then show ?case by simp
next
  case (Cons x xs)
  have a: "argmax_loop xs (Suc i) x i < Suc i + length xs"
    by (rule Cons.IH) simp
  have b: "argmax_loop xs (Suc i) mp max_ind < Suc i + length xs"
    by (rule Cons.IH) (use Cons.prems in simp)
  from a b Cons.prems show ?case by simp
qed

lemma argmax_nonempty: "xs \<noteq> [] \<Longrightarrow> \<exists>k < length xs. argmax xs = Inr k"
proof (cases xs)
  case Nil
  then show "xs \<noteq> [] \<Longrightarrow> ?thesis" by simp
next
  case (Cons x ys)
  have "argmax_loop ys 1 x 0 < 1 + length ys"
    by (rule argmax_loop_bound) simp
  with Cons show ?thesis by simp
qed

lemma np_le_refl: "a \<noteq> NaN \<Longrightarrow> np_le a a"
  by (cases a) simp_all

lemma argmax_loop_all_equal:
  "set xs \<subseteq> {mp} \<Longrightarrow> argmax_loop xs i mp max_ind = max_ind"
  by (induction xs arbitrary: i) (auto simp: is_nan_def np_le_refl)

lemma argmax_all_equal: "xs \<noteq> [] \<Longrightarrow> set xs \<subseteq> {s} \<Longrightarrow> argmax xs = Inr 0"
  by (cases xs) (auto simp: argmax_loop_all_equal)

text \<open>Without a nan, \<open>argmax\<close> returns the first position of a greatest value.\<close>

lemma np_le_cases:
  assumes "a \<noteq> NaN" "b \<noteq> NaN"
  shows "np_le a b \<or> np_le b a"
  using assms by (cases a; cases b) auto

lemma np_le_trans: "np_le a b \<Longrightarrow> np_le b c \<Longrightarrow> np_le a c"
  by (cases a; cases b; cases c) auto

lemma first_maximum_snoc_new:
  assumes "first_maximum pre m" "\<not> np_le x (pre ! m)" "x \<noteq> NaN" "NaN \<notin> set pre"
  shows "first_maximum (pre @ [x]) (length pre)"
proof -
  have m: "m < length pre" and le: "\<forall>j < length pre. np_le (pre ! j) (pre ! m)"
    using assms(1) by (simp_all add: first_maximum_def)
  have pm: "pre ! m \<noteq> NaN"
    using m assms(4) by (metis nth_mem)
  have up: "np_le (pre ! m) x"
    using np_le_cases [OF pm assms(3)] assms(2) by blast
  have "np_le (pre ! j) x" if "j < length pre" for j
    using le that up np_le_trans by blast
  moreover have "\<not> np_le x (pre ! j)" if "j < length pre" for j
    using le that assms(2) np_le_trans by blast
  moreover have "np_le x x"
    using assms(3) by (rule np_le_refl)
  ultimately show ?thesis
    by (auto simp: first_maximum_def nth_append less_Suc_eq)
qed

lemma first_maximum_snoc_keep:
  assumes "first_maximum pre m" "np_le x (pre ! m)"
  shows "first_maximum (pre @ [x]) m"
  using assms by (auto simp: first_maximum_def nth_append less_Suc_eq)

lemma argmax_loop_first_maximum:
  assumes "NaN \<notin> set pre" "NaN \<notin> set ys" "first_maximum pre m"
  shows "first_maximum (pre @ ys) (argmax_loop ys (length pre) (pre ! m) m)"
  using assms
proof (induction ys arbitrary: pre m)
  case Nil
  then show ?case by simp
next
  case (Cons x ys)
  have m: "m < length pre"
    using Cons.prems(3) by (simp add: first_maximum_def)
  then have pm: "\<not> is_nan (pre ! m)"
    using Cons.prems(1) by (metis is_nan_def nth_mem)
  have x: "x \<noteq> NaN" and ys: "NaN \<notin> set ys"
    using Cons.prems(2) by auto
  have pre': "NaN \<notin> set (pre @ [x])"
    using Cons.prems(1) x by auto
  show ?case
  proof (cases "np_le x (pre ! m)")
    case True
    have "first_maximum ((pre @ [x]) @ ys)
        (argmax_loop ys (length (pre @ [x])) ((pre @ [x]) ! m) m)"
      by (rule Cons.IH [OF pre' ys first_maximum_snoc_keep [OF Cons.prems(3) True]])
    then show ?thesis
      using True pm m by (simp add: nth_append)
  next
    case False
    have "first_maximum ((pre @ [x]) @ ys)
        (argmax_loop ys (length (pre @ [x])) ((pre @ [x]) ! length pre) (length pre))"
      by (rule Cons.IH [OF pre' ys first_maximum_snoc_new [OF Cons.prems(3) False x Cons.prems(1)]])
    then show ?thesis
      using False pm by simp
  qed
qed

lemma argmax_first_maximum:
  assumes "s \<noteq> []" "NaN \<notin> set s"
  shows "\<exists>b. argmax s = Inr b \<and> first_maximum s b"
proof (cases s)
  case Nil
  with assms(1) show ?thesis by simp
next
  case (Cons x xs)
  have x: "x \<noteq> NaN" and xs: "NaN \<notin> set xs"
    using assms(2) Cons by auto
  have "first_maximum [x] 0"
    using x by (simp add: first_maximum_def np_le_refl)
  from argmax_loop_first_maximum [of "[x]" xs 0, OF _ xs this] x
  have "first_maximum (x # xs) (argmax_loop xs 1 x 0)"
    by simp
  with Cons show ?thesis by simp
qed

lemma length_flat: "length (flat g) = nrows g * ncols g"
  by (simp add: flat_def length_concat comp_def sum_list_triv)

lemma flat_product:
  "flat g = map (\<lambda>q. entry g (fst q) (snd q)) (List.product [0..<nrows g] [0..<ncols g])"
  by (simp add: flat_def product_concat_map map_concat comp_def)



lemma set_item_shape [simp]:
  "nrows (set_item g q v) = nrows g" "ncols (set_item g q v) = ncols g"
  by (simp_all add: set_item_def)

lemma entry_set_item:
  "entry (set_item g q v) d a = (if (d, a) = q then v else entry g d a)"
  by (cases q) (simp add: set_item_def)

lemma pick_in_range:
  assumes "0 < nrows g" "0 < ncols g"
  shows "fst (pick g) < nrows g" "snd (pick g) < ncols g"
proof -
  have "flat g \<noteq> []"
    using assms length_flat [of g] by (metis length_0_conv mult_is_0 less_numeral_extra(3))
  then obtain k where k: "k < length (flat g)" "argmax (flat g) = Inr k"
    using argmax_nonempty by blast
  then have "k < nrows g * ncols g"
    by (simp add: length_flat)
  then have "k div ncols g < nrows g"
    by (simp add: less_mult_imp_div_less)
  with k assms show "fst (pick g) < nrows g" "snd (pick g) < ncols g"
    by (simp_all add: pick_def unravel_index_def)
qed

lemma score_perm_eq:
  assumes shape: "nrows (chisum st) = length distances" "ncols (chisum st) = length angles"
    and perm: "fst perm < length distances" "snd perm < length angles"
  shows "score_perm fresh mat distances angles perm st =
     (let g' = set_item (chisum st) perm
                 (compute_chi_sum (fresh (allocations st)) (mat (fst perm) (snd perm)))
      in Inr (st\<lparr>chisum := g', max_chi := Some (pick g'),
                 inputs_list := inputs_list st @ [chosen distances angles g'],
                 allocations := Suc (allocations st)\<rparr>))"
proof -
  define g' where "g' = set_item (chisum st) perm
                 (compute_chi_sum (fresh (allocations st)) (mat (fst perm) (snd perm)))"
  have pos: "0 < nrows g'" "0 < ncols g'"
    using shape perm by (auto simp: g'_def)
  then have ne: "flat g' \<noteq> []"
    using length_flat [of g'] by (metis length_0_conv mult_is_0 less_numeral_extra(3))
  then obtain k where k: "k < length (flat g')" "argmax (flat g') = Inr k"
    using argmax_nonempty by blast
  have r: "fst (pick g') < length distances" "snd (pick g') < length angles"
    using pick_in_range [OF pos] shape by (simp_all add: g'_def)
  have pk: "pick g' = unravel_index k (nrows g', ncols g')"
    using k by (simp add: pick_def)
  show ?thesis
    unfolding score_perm_def Let_def g'_def [symmetric]
    using k r by (simp add: pk [symmetric] getitem_def chosen_def)
qed


lemma scan_perms_result:
  assumes "nrows (chisum st) = length distances" "ncols (chisum st) = length angles"
    and "\<forall>q \<in> set ps. fst q < length distances \<and> snd q < length angles"
    and "distinct ps"
  shows "\<exists>st' tr. scan_perms fresh mat distances angles ps st = Inr st' \<and>
      nrows (chisum st') = length distances \<and> ncols (chisum st') = length angles \<and>
      allocations st' = allocations st + length ps \<and>
      matrix_list st' = matrix_list st \<and> haralick_list st' = haralick_list st \<and>
      inputs_list st' = inputs_list st @ tr \<and> length tr = length ps \<and>
      (ps = [] \<longrightarrow> max_chi st' = max_chi st) \<and>
      (ps \<noteq> [] \<longrightarrow> max_chi st' = Some (pick (chisum st')) \<and>
         last tr = chosen distances angles (chisum st')) \<and>
      (\<forall>t < length ps. entry (chisum st') (fst (ps ! t)) (snd (ps ! t)) =
         compute_chi_sum (fresh (allocations st + t)) (mat (fst (ps ! t)) (snd (ps ! t)))) \<and>
      (\<forall>d a. (d, a) \<notin> set ps \<longrightarrow> entry (chisum st') d a = entry (chisum st) d a)"
  using assms
proof (induction ps arbitrary: st)
  case Nil
  then show ?case by simp
next
  case (Cons q ps)
  define v where "v = compute_chi_sum (fresh (allocations st)) (mat (fst q) (snd q))"
  define g1 where "g1 = set_item (chisum st) q v"
  define st1 where "st1 = st\<lparr>chisum := g1, max_chi := Some (pick g1),
                 inputs_list := inputs_list st @ [chosen distances angles g1],
                 allocations := Suc (allocations st)\<rparr>"
  have step: "score_perm fresh mat distances angles q st = Inr st1"
    using score_perm_eq [of st distances angles q fresh mat] Cons.prems
    by (simp add: st1_def g1_def v_def Let_def)
  have "\<exists>st' tr. scan_perms fresh mat distances angles ps st1 = Inr st' \<and>
      nrows (chisum st') = length distances \<and> ncols (chisum st') = length angles \<and>
      allocations st' = allocations st1 + length ps \<and>
      matrix_list st' = matrix_list st1 \<and> haralick_list st' = haralick_list st1 \<and>
      inputs_list st' = inputs_list st1 @ tr \<and> length tr = length ps \<and>
      (ps = [] \<longrightarrow> max_chi st' = max_chi st1) \<and>
      (ps \<noteq> [] \<longrightarrow> max_chi st' = Some (pick (chisum st')) \<and>
         last tr = chosen distances angles (chisum st')) \<and>
      (\<forall>t < length ps. entry (chisum st') (fst (ps ! t)) (snd (ps ! t)) =
         compute_chi_sum (fresh (allocations st1 + t)) (mat (fst (ps ! t)) (snd (ps ! t)))) \<and>
      (\<forall>d a. (d, a) \<notin> set ps \<longrightarrow> entry (chisum st') d a = entry (chisum st1) d a)"
    by (rule Cons.IH) (use Cons.prems in \<open>simp_all add: st1_def g1_def\<close>)
  then obtain st' tr where
    run: "scan_perms fresh mat distances angles ps st1 = Inr st'"
    and sh: "nrows (chisum st') = length distances" "ncols (chisum st') = length angles"
    and al: "allocations st' = allocations st1 + length ps"
    and ml: "matrix_list st' = matrix_list st1" "haralick_list st' = haralick_list st1"
    and il: "inputs_list st' = inputs_list st1 @ tr" "length tr = length ps"
    and mc0: "ps = [] \<longrightarrow> max_chi st' = max_chi st1"
    and mc1: "ps \<noteq> [] \<longrightarrow> max_chi st' = Some (pick (chisum st')) \<and>
         last tr = chosen distances angles (chisum st')"
    and en: "\<forall>t < length ps. entry (chisum st') (fst (ps ! t)) (snd (ps ! t)) =
         compute_chi_sum (fresh (allocations st1 + t)) (mat (fst (ps ! t)) (snd (ps ! t)))"
    and un: "\<forall>d a. (d, a) \<notin> set ps \<longrightarrow> entry (chisum st') d a = entry (chisum st1) d a"
    by blast
  have qn: "q \<notin> set ps"
    using Cons.prems by simp
  have same: "ps = [] \<Longrightarrow> chisum st' = g1"
    using run by (auto simp: st1_def)
  have e0: "entry (chisum st') (fst q) (snd q) = v"
    using un qn by (simp add: st1_def g1_def entry_set_item)
  have e1: "entry (chisum st') (fst ((q # ps) ! t)) (snd ((q # ps) ! t)) =
      compute_chi_sum (fresh (allocations st + t))
        (mat (fst ((q # ps) ! t)) (snd ((q # ps) ! t)))" if "t < length (q # ps)" for t
  proof (cases t)
    case 0
    then show ?thesis using e0 by (simp add: v_def)
  next
    case (Suc t')
    then show ?thesis using en that by (simp add: st1_def)
  qed
  have e2: "entry (chisum st') d a = entry (chisum st) d a" if "(d, a) \<notin> set (q # ps)" for d a
    using un that by (auto simp: st1_def g1_def entry_set_item)
  have m: "max_chi st' = Some (pick (chisum st'))"
    using mc0 mc1 same by (cases "ps = []") (simp_all add: st1_def)
  have l: "last ([chosen distances angles g1] @ tr) = chosen distances angles (chisum st')"
    using mc1 il(2) same by (cases "ps = []") auto
  show ?case
    apply (rule exI [of _ st'])
    apply (rule exI [of _ "[chosen distances angles g1] @ tr"])
    using step run sh al ml il m l e1 e2
    by (simp add: st1_def)
qed



lemma perms_nth:
  "t < D * A \<Longrightarrow> List.product [0..<D] [0..<A] ! t = (t div A, t mod A)"
proof -
  assume t: "t < D * A"
  then have "0 < A" by (cases A) simp_all
  moreover from t have "t div A < D" by (simp add: less_mult_imp_div_less)
  ultimately show ?thesis using t by (simp add: product_nth)
qed

lemma scan_all_perms:
  assumes "nrows (chisum st) = length distances" "ncols (chisum st) = length angles"
  shows "\<exists>st' tr. scan_perms fresh mat distances angles
        (List.product [0..<length distances] [0..<length angles]) st = Inr st' \<and>
      nrows (chisum st') = length distances \<and> ncols (chisum st') = length angles \<and>
      allocations st' = allocations st + length distances * length angles \<and>
      matrix_list st' = matrix_list st \<and> haralick_list st' = haralick_list st \<and>
      inputs_list st' = inputs_list st @ tr \<and> length tr = length distances * length angles \<and>
      (0 < length distances * length angles \<longrightarrow>
         max_chi st' = Some (best fresh (allocations st) mat (length distances) (length angles)) \<and>
         last tr = (distances ! fst (best fresh (allocations st) mat (length distances) (length angles)),
                    angles ! snd (best fresh (allocations st) mat (length distances) (length angles)))) \<and>
      (length distances * length angles = 0 \<longrightarrow> max_chi st' = max_chi st)"
proof -
  define D where "D = length distances"
  define A where "A = length angles"
  define ps where "ps = List.product [0..<D] [0..<A]"
  have len: "length ps = D * A"
    by (simp add: ps_def)
  have "\<exists>st' tr. scan_perms fresh mat distances angles ps st = Inr st' \<and>
      nrows (chisum st') = length distances \<and> ncols (chisum st') = length angles \<and>
      allocations st' = allocations st + length ps \<and>
      matrix_list st' = matrix_list st \<and> haralick_list st' = haralick_list st \<and>
      inputs_list st' = inputs_list st @ tr \<and> length tr = length ps \<and>
      (ps = [] \<longrightarrow> max_chi st' = max_chi st) \<and>
      (ps \<noteq> [] \<longrightarrow> max_chi st' = Some (pick (chisum st')) \<and>
         last tr = chosen distances angles (chisum st')) \<and>
      (\<forall>t < length ps. entry (chisum st') (fst (ps ! t)) (snd (ps ! t)) =
         compute_chi_sum (fresh (allocations st + t)) (mat (fst (ps ! t)) (snd (ps ! t)))) \<and>
      (\<forall>d a. (d, a) \<notin> set ps \<longrightarrow> entry (chisum st') d a = entry (chisum st) d a)"
    by (rule scan_perms_result) (use assms in \<open>auto simp: ps_def D_def A_def distinct_product\<close>)
  then obtain st' tr where
    run: "scan_perms fresh mat distances angles ps st = Inr st'"
    and sh: "nrows (chisum st') = length distances" "ncols (chisum st') = length angles"
    and al: "allocations st' = allocations st + length ps"
    and ml: "matrix_list st' = matrix_list st" "haralick_list st' = haralick_list st"
    and il: "inputs_list st' = inputs_list st @ tr" "length tr = length ps"
    and mc0: "ps = [] \<longrightarrow> max_chi st' = max_chi st"
    and mc1: "ps \<noteq> [] \<longrightarrow> max_chi st' = Some (pick (chisum st')) \<and>
         last tr = chosen distances angles (chisum st')"
    and en: "\<forall>t < length ps. entry (chisum st') (fst (ps ! t)) (snd (ps ! t)) =
         compute_chi_sum (fresh (allocations st + t)) (mat (fst (ps ! t)) (snd (ps ! t)))"
    by blast
  have "flat (chisum st') = map (\<lambda>q. entry (chisum st') (fst q) (snd q)) ps"
    using sh by (simp add: flat_product ps_def D_def A_def)
  also have "\<dots> = map (\<lambda>t. entry (chisum st') (fst (ps ! t)) (snd (ps ! t))) [0..<length ps]"
    by (rule nth_equalityI) simp_all
  also have "\<dots> = scores fresh (allocations st) mat D A"
    unfolding scores_def len
  proof (rule map_cong [OF refl])
    fix t assume "t \<in> set [0..<D * A]"
    then have t: "t < D * A" by simp
    then have "ps ! t = (t div A, t mod A)"
      by (simp add: ps_def perms_nth)
    with en t len
    show "entry (chisum st') (fst (ps ! t)) (snd (ps ! t)) =
        compute_chi_sum (fresh (allocations st + t)) (mat (t div A) (t mod A))"
      by (metis fst_conv snd_conv)
  qed
  finally have fl: "flat (chisum st') = scores fresh (allocations st) mat D A" .
  have pk: "pick (chisum st') = best fresh (allocations st) mat D A"
    using sh by (simp add: pick_def best_def fl D_def A_def split: sum.splits)
  have pe: "ps = [] \<longleftrightarrow> D * A = 0"
    using len by (metis length_0_conv)
  show ?thesis
    apply (rule exI [of _ st'])
    apply (rule exI [of _ tr])
    using run sh al ml il mc0 mc1 pk pe len
    by (simp add: ps_def D_def A_def chosen_def)
qed


lemma best_in_range:
  assumes "0 < D * A"
  shows "fst (best fresh c mat D A) < D" "snd (best fresh c mat D A) < A"
proof -
  have "scores fresh c mat D A \<noteq> []"
    using assms by (simp add: scores_def)
  then obtain k where k: "k < length (scores fresh c mat D A)"
      "argmax (scores fresh c mat D A) = Inr k"
    using argmax_nonempty by blast
  then have "k < D * A"
    by (simp add: scores_def)
  then have "k div A < D" "k mod A < A"
    using assms by (simp_all add: less_mult_imp_div_less)
  with k show "fst (best fresh c mat D A) < D" "snd (best fresh c mat D A) < A"
    by (simp_all add: best_def unravel_index_def)
qed

lemma process_image_result:
  assumes "nrows (chisum st) = length distances" "ncols (chisum st) = length angles"
    and "distances \<noteq> []" "angles \<noteq> []"
  shows "\<exists>st' tr. process_image gcm fresh distances angles
        (List.product [0..<length distances] [0..<length angles]) img st = Inr st' \<and>
      nrows (chisum st') = length distances \<and> ncols (chisum st') = length angles \<and>
      allocations st' = allocations st + length distances * length angles \<and>
      matrix_list st' =
        matrix_list st @ [optimal_matrix_of gcm fresh distances angles img (allocations st)] \<and>
      haralick_list st' = haralick_list st @
        [create_haralick (optimal_matrix_of gcm fresh distances angles img (allocations st) 0 0)] \<and>
      inputs_list st' = inputs_list st @ tr \<and> length tr = length distances * length angles \<and>
      last tr = optimal_offset gcm fresh distances angles img (allocations st)"
proof -
  define mat where "mat = create_matrix gcm img (Some distances) (Some angles) False False"
  define b where "b = best fresh (allocations st) mat (length distances) (length angles)"
  have pos: "0 < length distances * length angles"
    using assms(3,4) by simp
  from scan_all_perms [OF assms(1,2), of fresh mat] pos
  obtain st1 tr where
    run: "scan_perms fresh mat distances angles
        (List.product [0..<length distances] [0..<length angles]) st = Inr st1"
    and sh: "nrows (chisum st1) = length distances" "ncols (chisum st1) = length angles"
    and al: "allocations st1 = allocations st + length distances * length angles"
    and ml: "matrix_list st1 = matrix_list st" "haralick_list st1 = haralick_list st"
    and il: "inputs_list st1 = inputs_list st @ tr" "length tr = length distances * length angles"
    and mc: "max_chi st1 = Some b" "last tr = (distances ! fst b, angles ! snd b)"
    unfolding b_def by blast
  have r: "fst b < length distances" "snd b < length angles"
    unfolding b_def by (rule best_in_range [OF pos])+
  have off: "optimal_offset gcm fresh distances angles img (allocations st) =
      (distances ! fst b, angles ! snd b)"
    by (simp add: optimal_offset_def b_def mat_def Let_def)
  show ?thesis
    apply (rule exI [of _ "st1\<lparr>matrix_list := matrix_list st1 @
          [optimal_matrix_of gcm fresh distances angles img (allocations st)],
        haralick_list := haralick_list st1 @
          [create_haralick (optimal_matrix_of gcm fresh distances angles img (allocations st) 0 0)]\<rparr>"])
    apply (rule exI [of _ tr])
    using run sh al ml il mc r
    by (simp add: process_image_def mat_def [symmetric] getitem_def optimal_matrix_of_def off Let_def)
qed

lemma process_images_result:
  assumes "nrows (chisum st) = length distances" "ncols (chisum st) = length angles"
    and "distances \<noteq> []" "angles \<noteq> []"
  shows "\<exists>st' tr. process_images gcm fresh distances angles
        (List.product [0..<length distances] [0..<length angles]) imgs st = Inr st' \<and>
      matrix_list st' = matrix_list st @
        map (\<lambda>k. optimal_matrix_of gcm fresh distances angles (imgs ! k)
                   (allocations st + k * (length distances * length angles))) [0..<length imgs] \<and>
      haralick_list st' = haralick_list st @
        map (\<lambda>k. create_haralick (optimal_matrix_of gcm fresh distances angles (imgs ! k)
                   (allocations st + k * (length distances * length angles)) 0 0)) [0..<length imgs] \<and>
      inputs_list st' = inputs_list st @ tr \<and>
      length tr = length imgs * (length distances * length angles) \<and>
      (\<forall>k < length imgs. tr ! (k * (length distances * length angles) +
          (length distances * length angles - 1)) =
        optimal_offset gcm fresh distances angles (imgs ! k)
          (allocations st + k * (length distances * length angles)))"
  using assms(1,2)
proof (induction imgs arbitrary: st)
  case Nil
  then show ?case by simp
next
  case (Cons img imgs)
  define P where "P = length distances * length angles"
  have P: "0 < P"
    using assms(3,4) by (simp add: P_def)
  from process_image_result [OF Cons.prems assms(3,4), of gcm fresh img]
  obtain st1 tr1 where
    one: "process_image gcm fresh distances angles
        (List.product [0..<length distances] [0..<length angles]) img st = Inr st1"
    and sh: "nrows (chisum st1) = length distances" "ncols (chisum st1) = length angles"
    and al: "allocations st1 = allocations st + P"
    and ml: "matrix_list st1 =
        matrix_list st @ [optimal_matrix_of gcm fresh distances angles img (allocations st)]"
    and hl: "haralick_list st1 = haralick_list st @
        [create_haralick (optimal_matrix_of gcm fresh distances angles img (allocations st) 0 0)]"
    and il: "inputs_list st1 = inputs_list st @ tr1" "length tr1 = P"
    and la: "last tr1 = optimal_offset gcm fresh distances angles img (allocations st)"
    unfolding P_def by blast
  from Cons.IH [OF sh]
  obtain st' tr where
    rest: "process_images gcm fresh distances angles
        (List.product [0..<length distances] [0..<length angles]) imgs st1 = Inr st'"
    and ml': "matrix_list st' = matrix_list st1 @
        map (\<lambda>k. optimal_matrix_of gcm fresh distances angles (imgs ! k)
                   (allocations st1 + k * P)) [0..<length imgs]"
    and hl': "haralick_list st' = haralick_list st1 @
        map (\<lambda>k. create_haralick (optimal_matrix_of gcm fresh distances angles (imgs ! k)
                   (allocations st1 + k * P) 0 0)) [0..<length imgs]"
    and il': "inputs_list st' = inputs_list st1 @ tr" "length tr = length imgs * P"
    and la': "\<forall>k < length imgs. tr ! (k * P + (P - 1)) =
        optimal_offset gcm fresh distances angles (imgs ! k) (allocations st1 + k * P)"
    unfolding P_def by blast
  have shift: "allocations st1 + k * P = allocations st + Suc k * P" for k
    by (simp add: al)
  have m: "map f [0..<length (img # imgs)] = f 0 # map (\<lambda>k. f (Suc k)) [0..<length imgs]" for f :: "nat \<Rightarrow> 'b"
    by (simp add: map_upt_Suc del: upt_Suc)
  have t1: "tr1 \<noteq> []"
    using il(2) P by auto
  have offs: "(tr1 @ tr) ! (k * P + (P - 1)) =
      optimal_offset gcm fresh distances angles ((img # imgs) ! k) (allocations st + k * P)"
    if "k < length (img # imgs)" for k
  proof (cases k)
    case 0
    then show ?thesis
      using il(2) la t1 P by (simp add: nth_append last_conv_nth)
  next
    case (Suc k')
    then have "k' < length imgs" using that by simp
    with la' have "tr ! (k' * P + (P - 1)) =
        optimal_offset gcm fresh distances angles (imgs ! k') (allocations st + Suc k' * P)"
      by (simp add: shift)
    moreover have "(tr1 @ tr) ! (Suc k' * P + (P - 1)) = tr ! (k' * P + (P - 1))"
      using il(2) by (simp add: nth_append)
    ultimately show ?thesis using Suc by simp
  qed
  have mats: "matrix_list st' = matrix_list st @
      map (\<lambda>k. optimal_matrix_of gcm fresh distances angles ((img # imgs) ! k)
                 (allocations st + k * P)) [0..<length (img # imgs)]"
    unfolding m using ml ml' by (simp add: al add.assoc)
  have hars: "haralick_list st' = haralick_list st @
      map (\<lambda>k. create_haralick (optimal_matrix_of gcm fresh distances angles ((img # imgs) ! k)
                 (allocations st + k * P) 0 0)) [0..<length (img # imgs)]"
    unfolding m using hl hl' by (simp add: al add.assoc)
  have inps: "inputs_list st' = inputs_list st @ (tr1 @ tr)"
    using il il' by simp
  have lens: "length (tr1 @ tr) = length (img # imgs) * P"
    using il il' by simp
  have run: "process_images gcm fresh distances angles
        (List.product [0..<length distances] [0..<length angles]) (img # imgs) st = Inr st'"
    using one rest by simp
  show ?case
    unfolding P_def [symmetric]
    using run mats hars inps lens offs by blast
qed


section \<open>Claims about the score\<close>

text \<open>
  C1. The claim: for a square non-negative count matrix with positive total, the score is
  the sum over the cells with non-zero expectation of \<open>(M[i,j] - E[i,j])\<^sup>2 / E[i,j]\<close>,
  where \<open>E[i,j]\<close> is the total of row \<open>i\<close> times the total of column \<open>j\<close> over the
  total. The code forms the expectation from the total of column \<open>i\<close> and the total of
  row \<open>j\<close> (\<open>rc_total_transposed\<close>). On the count matrix with rows \<open>0 0 2\<close>,
  \<open>1 0 0\<close>, \<open>0 1 0\<close>, where no expectation is zero, the code returns 16 whatever
  the result array held, and the sum of the claim is 8.
\<close>

theorem compute_chi_sum_not_chi_square:
  "compute_chi_sum out (of_rows [[0, 0, 2], [1, 0, 0], [0, 1, 0]]) = Fin 16 \<and>
   chi_square_spec (of_rows [[0, 0, 2], [1, 0, 0], [0, 1, 0]]) = Fin 8"
  by (simp add: chi_eval)

text \<open>
  C2. The claim: a matrix whose cells are all equal to their expectation (rows and
  columns independent) scores 0. The matrix with rows \<open>1 2\<close> and \<open>1 2\<close> is such a
  matrix: each cell is the total of its row times the total of its column over the
  total, and the statistic of the specification is 0. The code returns 3/2.
\<close>

theorem compute_chi_sum_independent_nonzero:
  "cell (of_rows [[1, 2], [1, 2]]) 0 0 = expectation_spec (of_rows [[1, 2], [1, 2]]) 0 0 \<and>
   cell (of_rows [[1, 2], [1, 2]]) 0 1 = expectation_spec (of_rows [[1, 2], [1, 2]]) 0 1 \<and>
   cell (of_rows [[1, 2], [1, 2]]) 1 0 = expectation_spec (of_rows [[1, 2], [1, 2]]) 1 0 \<and>
   cell (of_rows [[1, 2], [1, 2]]) 1 1 = expectation_spec (of_rows [[1, 2], [1, 2]]) 1 1 \<and>
   chi_square_spec (of_rows [[1, 2], [1, 2]]) = Fin 0 \<and>
   compute_chi_sum out (of_rows [[1, 2], [1, 2]]) = Fin (3 / 2)"
  by (simp add: chi_eval)

text \<open>
  C3. The claim: the all-zero matrix scores 0, with no nan. In the code the total is 0,
  every entry of \<^verbatim>\<open>matrix_rc_totals\<close> is \<^verbatim>\<open>0/0\<close>, a nan, and a nan passes the test
  \<^verbatim>\<open>!= 0\<close>: no cell is skipped, every quotient is a nan and so is their sum. This
  is so for the all-zero matrix of every side but 0, whatever the result array held.
\<close>

theorem compute_chi_sum_zero_matrix:
  assumes "0 < side m" and "\<forall>i < side m. \<forall>j < side m. cell m i j = Fin 0"
  shows "compute_chi_sum out m = NaN"
proof -
  have tot: "np_sum2 (side m) (cell m) = Fin 0"
  proof -
    have "np_sum2 (side m) (cell m) = np_sum2 (side m) (\<lambda>i j. Fin 0)"
      by (rule np_sum2_cong) (use assms(2) in simp)
    then show ?thesis by (simp add: np_sum2_Fin)
  qed
  have ax0: "sum_axis0 (side m) (cell m) i = Fin 0" if "i < side m" for i
  proof -
    have "sum_axis0 (side m) (cell m) i = np_sum (side m) (\<lambda>k. Fin 0)"
      unfolding sum_axis0_def by (rule np_sum_cong) (use assms(2) that in simp)
    then show ?thesis by (simp add: np_sum_Fin)
  qed
  have ax1: "sum_axis1 (side m) (cell m) j = Fin 0" if "j < side m" for j
  proof -
    have "sum_axis1 (side m) (cell m) j = np_sum (side m) (\<lambda>k. Fin 0)"
      unfolding sum_axis1_def by (rule np_sum_cong) (use assms(2) that in simp)
    then show ?thesis by (simp add: np_sum_Fin)
  qed
  have rc: "rc_total m i j = NaN" if "i < side m" "j < side m" for i j
    using that by (simp add: rc_total_def ax0 ax1 tot)
  have "compute_chi_sum out m = np_sum2 (side m) (\<lambda>i j. NaN)"
    unfolding compute_chi_sum_cells
    by (rule np_sum2_cong) (simp add: rc sq_def minus_f64_def)
  then show ?thesis
    using assms(1) by (simp add: np_sum2_def np_sum_const_nan)
qed

theorem compute_chi_sum_zero_matrix_witness:
  "compute_chi_sum (\<lambda>i j. Fin 0) (of_rows [[0, 0], [0, 0]]) = NaN"
  using compute_chi_sum_zero_matrix [of "of_rows [[0, 0], [0, 0]]" "\<lambda>i j. Fin 0"]
  by (simp add: of_rows_def less_Suc_eq)


section \<open>The batch in closed form\<close>

lemma create_matrix_list_result:
  assumes "distances \<noteq> []" "angles \<noteq> []"
  shows "\<exists>tr. create_matrix_list gcm fresh image_list distances angles =
        Inr (map (\<lambda>k. optimal_matrix_of gcm fresh distances angles (image_list ! k)
                   (k * (length distances * length angles))) [0..<length image_list],
             tr,
             map (\<lambda>k. create_haralick (optimal_matrix_of gcm fresh distances angles (image_list ! k)
                   (k * (length distances * length angles)) 0 0)) [0..<length image_list]) \<and>
      length tr = length image_list * (length distances * length angles) \<and>
      (\<forall>k < length image_list. tr ! (k * (length distances * length angles) +
          (length distances * length angles - 1)) =
        optimal_offset gcm fresh distances angles (image_list ! k)
          (k * (length distances * length angles)))"
proof -
  define st0 where "st0 = \<lparr>chisum = np_zeros (length distances) (length angles), max_chi = None,
                 matrix_list = [], inputs_list = [], haralick_list = [], allocations = 0\<rparr>"
  have sh: "nrows (chisum st0) = length distances" "ncols (chisum st0) = length angles"
    by (simp_all add: st0_def np_zeros_def)
  from process_images_result [OF sh assms, of gcm fresh image_list]
  obtain st' tr where
    run: "process_images gcm fresh distances angles
        (List.product [0..<length distances] [0..<length angles]) image_list st0 = Inr st'"
    and ms: "matrix_list st' = matrix_list st0 @
        map (\<lambda>k. optimal_matrix_of gcm fresh distances angles (image_list ! k)
                   (allocations st0 + k * (length distances * length angles))) [0..<length image_list]"
    and hs: "haralick_list st' = haralick_list st0 @
        map (\<lambda>k. create_haralick (optimal_matrix_of gcm fresh distances angles (image_list ! k)
                   (allocations st0 + k * (length distances * length angles)) 0 0)) [0..<length image_list]"
    and ins: "inputs_list st' = inputs_list st0 @ tr"
      "length tr = length image_list * (length distances * length angles)"
    and la: "\<forall>k < length image_list. tr ! (k * (length distances * length angles) +
          (length distances * length angles - 1)) =
        optimal_offset gcm fresh distances angles (image_list ! k)
          (allocations st0 + k * (length distances * length angles))"
    by blast
  have a0: "allocations st0 = 0" "matrix_list st0 = []" "haralick_list st0 = []" "inputs_list st0 = []"
    by (simp_all add: st0_def)
  have "create_matrix_list gcm fresh image_list distances angles =
      Inr (matrix_list st', inputs_list st', haralick_list st')"
    using run by (simp add: create_matrix_list_def st0_def)
  with ms hs ins la show ?thesis
    unfolding a0 by simp
qed

lemma create_matrix_list_unbound:
  assumes "image_list \<noteq> []" "distances = [] \<or> angles = []"
  shows "create_matrix_list gcm fresh image_list distances angles = Inl UnboundLocalError"
proof -
  have "length (List.product [0..<length distances] [0..<length angles]) = 0"
    using assms(2) by auto
  then have "List.product [0..<length distances] [0..<length angles] = []"
    by (simp only: length_0_conv)
  then show ?thesis
    using assms(1)
    by (cases image_list) (simp_all add: create_matrix_list_def process_image_def)
qed

lemma scores_cong:
  assumes "\<And>t. t < D * A \<Longrightarrow> fresh1 (c1 + t) = fresh2 (c2 + t)"
  shows "scores fresh1 c1 mat D A = scores fresh2 c2 mat D A"
  unfolding scores_def by (rule map_cong [OF refl]) (simp add: assms)

lemma optimal_offset_cong:
  assumes "\<And>t. t < length distances * length angles \<Longrightarrow> fresh1 (c1 + t) = fresh2 (c2 + t)"
  shows "optimal_offset gcm fresh1 distances angles img c1 =
         optimal_offset gcm fresh2 distances angles img c2"
  unfolding optimal_offset_def best_def
  using scores_cong [of "length distances" "length angles" fresh1 c1 fresh2 c2] assms
  by simp

lemma best_all_equal:
  assumes "0 < D * A"
    and "\<And>t. t < D * A \<Longrightarrow> compute_chi_sum (fresh (c + t)) (mat (t div A) (t mod A)) = s"
  shows "best fresh c mat D A = (0, 0)"
proof -
  have "scores fresh c mat D A \<noteq> []"
    using assms(1) by (simp add: scores_def)
  moreover have "set (scores fresh c mat D A) \<subseteq> {s}"
    using assms(2) by (auto simp: scores_def)
  ultimately have "argmax (scores fresh c mat D A) = Inr 0"
    by (rule argmax_all_equal)
  then show ?thesis
    by (simp add: best_def unravel_index_def)
qed



lemma optimal_offset_first_maximum:
  assumes "distances \<noteq> []" "angles \<noteq> []"
    and "NaN \<notin> set (scores fresh c
           (create_matrix gcm img (Some distances) (Some angles) False False)
           (length distances) (length angles))"
  shows "best_pair_known distances angles
     (scores fresh c (create_matrix gcm img (Some distances) (Some angles) False False)
        (length distances) (length angles))
     (length distances * length angles - 1)
     (optimal_offset gcm fresh distances angles img c)"
proof -
  define s where "s = scores fresh c
           (create_matrix gcm img (Some distances) (Some angles) False False)
           (length distances) (length angles)"
  have len: "length s = length distances * length angles"
    by (simp add: s_def scores_def)
  have pos: "0 < length distances * length angles"
    using assms(1,2) by simp
  then have ne: "s \<noteq> []"
    using len by auto
  from argmax_first_maximum [OF ne] assms(3)
  obtain b where b: "argmax s = Inr b" "first_maximum s b"
    unfolding s_def by blast
  have bl: "b \<le> length distances * length angles - 1"
    using b(2) len pos by (auto simp: first_maximum_def)
  have tk: "take (Suc (length distances * length angles - 1)) s = s"
    using len pos by simp
  have "optimal_offset gcm fresh distances angles img c =
      (distances ! (b div length angles), angles ! (b mod length angles))"
    using b(1) by (simp add: optimal_offset_def best_def s_def [symmetric] unravel_index_def)
  with b(2) bl tk show ?thesis
    unfolding best_pair_known_def s_def [symmetric] by auto
qed

text \<open>Every pair appended is a pair of one of the distances and one of the angles.\<close>

lemma score_perm_inputs:
  assumes "score_perm fresh mat distances angles perm st = Inr st'"
  shows "\<exists>d a. inputs_list st' = inputs_list st @ [(d, a)] \<and> d \<in> set distances \<and> a \<in> set angles"
  using assms
  by (auto simp: score_perm_def Let_def getitem_def split: sum.splits if_splits)

lemma scan_perms_inputs:
  assumes "scan_perms fresh mat distances angles ps st = Inr st'"
    and "set (inputs_list st) \<subseteq> set distances \<times> set angles"
  shows "set (inputs_list st') \<subseteq> set distances \<times> set angles"
  using assms
proof (induction ps arbitrary: st)
  case Nil
  then show ?case by simp
next
  case (Cons q ps)
  from Cons.prems(1) obtain st1 where
    one: "score_perm fresh mat distances angles q st = Inr st1"
    and rest: "scan_perms fresh mat distances angles ps st1 = Inr st'"
    by (auto split: sum.splits)
  from score_perm_inputs [OF one] Cons.prems(2)
  have "set (inputs_list st1) \<subseteq> set distances \<times> set angles"
    by auto
  with rest show ?case
    by (rule Cons.IH)
qed

lemma process_image_inputs:
  assumes "process_image gcm fresh distances angles ps img st = Inr st'"
    and "set (inputs_list st) \<subseteq> set distances \<times> set angles"
  shows "set (inputs_list st') \<subseteq> set distances \<times> set angles"
proof -
  from assms(1) obtain st1 where
    scan: "scan_perms fresh (create_matrix gcm img (Some distances) (Some angles) False False)
        distances angles ps st = Inr st1"
    and il: "inputs_list st' = inputs_list st1"
    by (auto simp: process_image_def Let_def split: sum.splits option.splits)
  from scan_perms_inputs [OF scan assms(2)] il show ?thesis
    by simp
qed

lemma process_images_inputs:
  assumes "process_images gcm fresh distances angles ps imgs st = Inr st'"
    and "set (inputs_list st) \<subseteq> set distances \<times> set angles"
  shows "set (inputs_list st') \<subseteq> set distances \<times> set angles"
  using assms
proof (induction imgs arbitrary: st)
  case Nil
  then show ?case by simp
next
  case (Cons img imgs)
  from Cons.prems(1) obtain st1 where
    one: "process_image gcm fresh distances angles ps img st = Inr st1"
    and rest: "process_images gcm fresh distances angles ps imgs st1 = Inr st'"
    by (auto split: sum.splits)
  from rest process_image_inputs [OF one Cons.prems(2)] show ?case
    by (rule Cons.IH)
qed

lemma create_matrix_list_inputs:
  assumes "create_matrix_list gcm fresh image_list distances angles = Inr (ms, ins, hs)"
  shows "set ins \<subseteq> set distances \<times> set angles"
proof -
  from assms obtain st' where
    run: "process_images gcm fresh distances angles
        (List.product [0..<length distances] [0..<length angles]) image_list
        \<lparr>chisum = np_zeros (length distances) (length angles), max_chi = None,
          matrix_list = [], inputs_list = [], haralick_list = [], allocations = 0\<rparr> = Inr st'"
    and il: "ins = inputs_list st'"
    by (auto simp: create_matrix_list_def Let_def split: sum.splits)
  from process_images_inputs [OF run] il show ?thesis
    by simp
qed


section \<open>The entries of the first image\<close>

text \<open>
  The pairs appended while the first image of a batch is scanned: the grid holds the
  scores written so far and \<open>0.0\<close> in its other cells.
\<close>

lemma fill_shape [simp]:
  "nrows (fill fresh mat c qs g) = nrows g" "ncols (fill fresh mat c qs g) = ncols g"
  by (induction qs arbitrary: c g) simp_all

lemma fill_other:
  "(d, a) \<notin> set qs \<Longrightarrow> entry (fill fresh mat c qs g) d a = entry g d a"
  by (induction qs arbitrary: c g) (auto simp: entry_set_item)

lemma fill_scored:
  assumes "distinct qs" "i < length qs"
  shows "entry (fill fresh mat c qs g) (fst (qs ! i)) (snd (qs ! i)) =
         compute_chi_sum (fresh (c + i)) (mat (fst (qs ! i)) (snd (qs ! i)))"
  using assms
proof (induction qs arbitrary: c g i)
  case Nil
  then show ?case by simp
next
  case (Cons q qs)
  show ?case
  proof (cases i)
    case 0
    have "q \<notin> set qs"
      using Cons.prems(1) by simp
    then have "(fst q, snd q) \<notin> set qs"
      by simp
    from fill_other [OF this] 0 show ?thesis
      by (simp add: entry_set_item)
  next
    case (Suc i')
    with Cons.prems have "distinct qs" "i' < length qs"
      by simp_all
    from Cons.IH [OF this] Suc show ?thesis
      by simp
  qed
qed

lemma scan_perms_trace:
  assumes "nrows (chisum st) = length distances" "ncols (chisum st) = length angles"
    and "\<forall>q \<in> set ps. fst q < length distances \<and> snd q < length angles"
  shows "\<exists>st'. scan_perms fresh mat distances angles ps st = Inr st' \<and>
      inputs_list st' = inputs_list st @
        map (\<lambda>t. chosen distances angles
                   (fill fresh mat (allocations st) (take (Suc t) ps) (chisum st)))
          [0..<length ps]"
  using assms
proof (induction ps arbitrary: st)
  case Nil
  then show ?case by simp
next
  case (Cons q ps)
  define g1 where "g1 = set_item (chisum st) q
      (compute_chi_sum (fresh (allocations st)) (mat (fst q) (snd q)))"
  define st1 where "st1 = st\<lparr>chisum := g1, max_chi := Some (pick g1),
                 inputs_list := inputs_list st @ [chosen distances angles g1],
                 allocations := Suc (allocations st)\<rparr>"
  have step: "score_perm fresh mat distances angles q st = Inr st1"
    using score_perm_eq [of st distances angles q fresh mat] Cons.prems
    by (simp add: st1_def g1_def Let_def)
  have "\<exists>st'. scan_perms fresh mat distances angles ps st1 = Inr st' \<and>
      inputs_list st' = inputs_list st1 @
        map (\<lambda>t. chosen distances angles
                   (fill fresh mat (allocations st1) (take (Suc t) ps) (chisum st1)))
          [0..<length ps]"
    by (rule Cons.IH) (use Cons.prems in \<open>simp_all add: st1_def g1_def\<close>)
  then obtain st' where
    run: "scan_perms fresh mat distances angles ps st1 = Inr st'"
    and il: "inputs_list st' = inputs_list st1 @
        map (\<lambda>t. chosen distances angles
                   (fill fresh mat (allocations st1) (take (Suc t) ps) (chisum st1)))
          [0..<length ps]"
    by blast
  have m: "map f [0..<length (q # ps)] = f 0 # map (\<lambda>t. f (Suc t)) [0..<length ps]"
    for f :: "nat \<Rightarrow> int \<times> int"
    by (simp add: map_upt_Suc del: upt_Suc)
  show ?case
    unfolding m using step run il
    by (simp add: st1_def g1_def)
qed

lemma flat_nth:
  assumes "t < nrows g * ncols g"
  shows "flat g ! t = entry g (t div ncols g) (t mod ncols g)"
  using assms by (simp add: flat_product perms_nth)

lemma flat_fill:
  assumes "nrows g = D" "ncols g = A" "t < D * A"
  shows "flat (fill fresh mat c (take (Suc t) (List.product [0..<D] [0..<A])) g) =
         partial_scores (scores fresh c mat D A) (flat g) t"
proof (rule nth_equalityI)
  define ps where "ps = List.product [0..<D] [0..<A]"
  define g' where "g' = fill fresh mat c (take (Suc t) ps) g"
  have len: "length ps = D * A"
    by (simp add: ps_def)
  have dist: "distinct ps"
    by (simp add: ps_def distinct_product)
  show "length (flat (fill fresh mat c (take (Suc t) (List.product [0..<D] [0..<A])) g)) =
      length (partial_scores (scores fresh c mat D A) (flat g) t)"
    using assms by (simp add: length_flat partial_scores_def scores_def)
  fix i
  assume "i < length (flat (fill fresh mat c (take (Suc t) (List.product [0..<D] [0..<A])) g))"
  then have i: "i < D * A"
    using assms by (simp add: length_flat)
  have nth: "ps ! i = (i div A, i mod A)"
    using i by (simp add: ps_def perms_nth)
  have fl: "flat g' ! i = entry g' (i div A) (i mod A)"
    using flat_nth [of i g'] i assms by (simp add: g'_def)
  have "flat g' ! i = partial_scores (scores fresh c mat D A) (flat g) t ! i"
  proof (cases "i \<le> t")
    case True
    then have it: "i < length (take (Suc t) ps)"
      using i len by simp
    have "take (Suc t) ps ! i = (i div A, i mod A)"
      using True nth by simp
    with fill_scored [OF distinct_take [OF dist] it, of fresh mat c g]
    have "entry g' (i div A) (i mod A) = compute_chi_sum (fresh (c + i)) (mat (i div A) (i mod A))"
      by (simp add: g'_def)
    moreover have "partial_scores (scores fresh c mat D A) (flat g) t ! i =
        scores fresh c mat D A ! i"
      using True i by (simp add: partial_scores_def nth_append scores_def)
    ultimately show ?thesis
      using fl i by (simp add: scores_def)
  next
    case False
    have "ps ! i \<notin> set (take (Suc t) ps)"
    proof
      assume "ps ! i \<in> set (take (Suc t) ps)"
      then obtain j where j: "j < length (take (Suc t) ps)" "take (Suc t) ps ! j = ps ! i"
        by (auto simp: in_set_conv_nth)
      then have "j \<le> t" "ps ! j = ps ! i" "j < length ps"
        by simp_all
      with dist i len have "j = i"
        by (simp add: nth_eq_iff_index_eq)
      with \<open>j \<le> t\<close> False show False by simp
    qed
    then have "(i div A, i mod A) \<notin> set (take (Suc t) ps)"
      by (simp add: nth)
    from fill_other [OF this]
    have "entry g' (i div A) (i mod A) = entry g (i div A) (i mod A)"
      by (simp add: g'_def)
    moreover have "flat g ! i = entry g (i div A) (i mod A)"
      using flat_nth [of i g] i assms by simp
    moreover have "partial_scores (scores fresh c mat D A) (flat g) t ! i = flat g ! i"
    proof -
      have "Suc t + (i - Suc t) = i"
        using False by simp
      moreover have "Suc t \<le> length (flat g)"
        using False i assms by (simp add: length_flat)
      ultimately have "drop (Suc t) (flat g) ! (i - Suc t) = flat g ! i"
        by (metis nth_drop)
      then show ?thesis
        using False i by (simp add: partial_scores_def nth_append scores_def min_def)
    qed
    ultimately show ?thesis
      using fl by simp
  qed
  then show "flat (fill fresh mat c (take (Suc t) (List.product [0..<D] [0..<A])) g) ! i =
      partial_scores (scores fresh c mat D A) (flat g) t ! i"
    by (simp add: g'_def ps_def)
qed

lemma first_maximum_unique:
  assumes "first_maximum s b" "first_maximum s b'"
  shows "b = b'"
proof (rule ccontr)
  assume "b \<noteq> b'"
  then consider "b < b'" | "b' < b"
    by (meson nat_neq_iff)
  then show False
  proof cases
    case 1
    with assms show False
      by (auto simp: first_maximum_def)
  next
    case 2
    with assms show False
      by (auto simp: first_maximum_def)
  qed
qed

lemma first_maximum_append:
  assumes "first_maximum xs b" "\<forall>y \<in> set ys. np_le y (xs ! b)"
  shows "first_maximum (xs @ ys) b"
  using assms by (auto simp: first_maximum_def nth_append)

lemma argmax_partial_scores:
  assumes "t < length s" "NaN \<notin> set (take (Suc t) s)"
    and "\<exists>j \<le> t. np_le (Fin 0) (s ! j)"
  shows "\<exists>b \<le> t. argmax (partial_scores s (replicate n (Fin 0)) t) = Inr b \<and>
           first_maximum (take (Suc t) s) b"
proof -
  define xs where "xs = take (Suc t) s"
  define zs where "zs = drop (Suc t) (replicate n (Fin 0))"
  have lx: "length xs = Suc t"
    using assms(1) by (simp add: xs_def)
  then have ne: "xs \<noteq> []"
    by auto
  from argmax_first_maximum [OF ne] assms(2)
  obtain b where b: "first_maximum xs b"
    unfolding xs_def by blast
  then have bt: "b \<le> t"
    using lx by (simp add: first_maximum_def)
  from assms(3) obtain j where j: "j \<le> t" "np_le (Fin 0) (s ! j)"
    by blast
  then have "np_le (xs ! j) (xs ! b)"
    using b lx by (simp add: first_maximum_def)
  moreover have "xs ! j = s ! j"
    using j(1) by (simp add: xs_def)
  ultimately have zero: "np_le (Fin 0) (xs ! b)"
    using j(2) np_le_trans by metis
  have "\<forall>y \<in> set zs. np_le y (xs ! b)"
    using zero by (auto simp: zs_def)
  with b have full: "first_maximum (xs @ zs) b"
    by (rule first_maximum_append)
  have "NaN \<notin> set (xs @ zs)"
    using assms(2) by (auto simp: xs_def zs_def)
  moreover have "xs @ zs \<noteq> []"
    using ne by simp
  ultimately obtain b' where b': "argmax (xs @ zs) = Inr b'" "first_maximum (xs @ zs) b'"
    using argmax_first_maximum by blast
  from first_maximum_unique [OF full b'(2)] b'(1) b bt show ?thesis
    by (auto simp: partial_scores_def xs_def zs_def)
qed

lemma flat_np_zeros: "flat (np_zeros D A) = replicate (D * A) (Fin 0)"
  by (rule nth_equalityI) (simp_all add: length_flat flat_nth np_zeros_def)

lemma chosen_argmax:
  assumes "argmax (flat g) = Inr b" "ncols g = length angles"
  shows "chosen distances angles g = (distances ! (b div length angles), angles ! (b mod length angles))"
  using assms by (simp add: chosen_def pick_def unravel_index_def)

lemma process_image_scan:
  assumes "process_image gcm fresh distances angles ps img st = Inr st'"
  shows "\<exists>st1. scan_perms fresh (create_matrix gcm img (Some distances) (Some angles) False False)
        distances angles ps st = Inr st1 \<and> inputs_list st' = inputs_list st1"
  using assms
  by (auto simp: process_image_def Let_def split: sum.splits option.splits)

lemma create_matrix_list_first_image:
  assumes "distances \<noteq> []" "angles \<noteq> []" "image_list \<noteq> []"
    and "create_matrix_list gcm fresh image_list distances angles = Inr (ms, ins, hs)"
    and "t < length distances * length angles"
  shows "ins ! t = chosen distances angles
      (fill fresh (create_matrix gcm (image_list ! 0) (Some distances) (Some angles) False False) 0
         (take (Suc t) (List.product [0..<length distances] [0..<length angles]))
         (np_zeros (length distances) (length angles)))"
proof -
  define ps where "ps = List.product [0..<length distances] [0..<length angles]"
  define st0 where "st0 = \<lparr>chisum = np_zeros (length distances) (length angles), max_chi = None,
      matrix_list = [], inputs_list = ([] :: (int \<times> int) list), haralick_list = [],
      allocations = 0\<rparr>"
  define mat where "mat = create_matrix gcm (image_list ! 0) (Some distances) (Some angles) False False"
  from assms(3) obtain img imgs where il: "image_list = img # imgs"
    by (cases image_list) auto
  have sh: "nrows (chisum st0) = length distances" "ncols (chisum st0) = length angles"
    by (simp_all add: st0_def np_zeros_def)
  from process_image_result [OF sh assms(1,2), of gcm fresh img]
  obtain st1 where
    one: "process_image gcm fresh distances angles ps img st0 = Inr st1"
    and sh1: "nrows (chisum st1) = length distances" "ncols (chisum st1) = length angles"
    unfolding ps_def by blast
  from process_image_scan [OF one] obtain stS where
    scan: "scan_perms fresh mat distances angles ps st0 = Inr stS"
    and same: "inputs_list st1 = inputs_list stS"
    unfolding mat_def il by auto
  have rng: "\<forall>q \<in> set ps. fst q < length distances \<and> snd q < length angles"
    by (auto simp: ps_def)
  from scan_perms_trace [OF sh rng, of fresh mat] scan
  have tr1: "inputs_list stS =
      map (\<lambda>t. chosen distances angles (fill fresh mat 0 (take (Suc t) ps) (chisum st0)))
        [0..<length ps]"
    by (simp add: st0_def)
  from process_images_result [OF sh1 assms(1,2), of gcm fresh imgs]
  obtain st' tr where
    rest: "process_images gcm fresh distances angles ps imgs st1 = Inr st'"
    and app: "inputs_list st' = inputs_list st1 @ tr"
    unfolding ps_def by blast
  have "create_matrix_list gcm fresh image_list distances angles =
      Inr (matrix_list st', inputs_list st', haralick_list st')"
    using one rest
    by (simp add: create_matrix_list_def il ps_def [symmetric] st0_def [symmetric])
  with assms(4) have "ins = inputs_list st'"
    by simp
  moreover have "t < length ps"
    using assms(5) by (simp add: ps_def)
  ultimately show ?thesis
    using app same tr1
    by (simp add: nth_append ps_def [symmetric] mat_def [symmetric] st0_def)
qed

lemma first_image_best_pair_known:
  assumes "distances \<noteq> []" "angles \<noteq> []" "image_list \<noteq> []"
    and "create_matrix_list gcm fresh image_list distances angles = Inr (ms, ins, hs)"
    and "t < length distances * length angles"
    and "NaN \<notin> set (take (Suc t) (scores fresh 0
           (create_matrix gcm (image_list ! 0) (Some distances) (Some angles) False False)
           (length distances) (length angles)))"
    and "\<exists>j \<le> t. np_le (Fin 0) (scores fresh 0
           (create_matrix gcm (image_list ! 0) (Some distances) (Some angles) False False)
           (length distances) (length angles) ! j)"
  shows "best_pair_known distances angles
     (scores fresh 0
        (create_matrix gcm (image_list ! 0) (Some distances) (Some angles) False False)
        (length distances) (length angles)) t (ins ! t)"
proof -
  define mat where "mat = create_matrix gcm (image_list ! 0) (Some distances) (Some angles) False False"
  define s where "s = scores fresh 0 mat (length distances) (length angles)"
  define g where "g = fill fresh mat 0
      (take (Suc t) (List.product [0..<length distances] [0..<length angles]))
      (np_zeros (length distances) (length angles))"
  have ls: "t < length s"
    using assms(5) by (simp add: s_def scores_def)
  have shape: "nrows (np_zeros (length distances) (length angles)) = length distances"
      "ncols (np_zeros (length distances) (length angles)) = length angles"
    by (simp_all add: np_zeros_def)
  have fl: "flat g = partial_scores s (replicate (length distances * length angles) (Fin 0)) t"
    unfolding g_def s_def flat_fill [OF shape assms(5)] flat_np_zeros ..
  from argmax_partial_scores [OF ls, of "length distances * length angles"] assms(6,7)
  obtain b where b: "b \<le> t" "argmax (flat g) = Inr b" "first_maximum (take (Suc t) s) b"
    unfolding fl s_def mat_def by blast
  have "ncols g = length angles"
    by (simp add: g_def np_zeros_def)
  from chosen_argmax [OF b(2) this]
  have "chosen distances angles g =
      (distances ! (b div length angles), angles ! (b mod length angles))" .
  moreover have "ins ! t = chosen distances angles g"
    unfolding g_def mat_def by (rule create_matrix_list_first_image [OF assms(1-5)])
  ultimately show ?thesis
    using b(1,3) unfolding best_pair_known_def s_def mat_def by auto
qed


section \<open>The sample images\<close>

text \<open>The pairs of the three images, to the right and below.\<close>

lemma pairs_image_a:
  "pairs image_a (0, Suc 0) = [(0, 0), (0, 1), (1, 1), (1, 0)]"
  "pairs image_a (Suc 0, 0) = [(0, 1), (0, 1), (1, 0)]"
  by (simp_all add: pairs_def image_a_def)

lemma pairs_image_b:
  "pairs image_b (0, Suc 0) = [(0, 1), (1, 0), (0, 1), (1, 0)]"
  "pairs image_b (Suc 0, 0) = [(0, 0), (1, 1), (0, 0)]"
  by (simp_all add: pairs_def image_b_def)

lemma pairs_image_c:
  "pairs image_c (0, Suc 0) = [(0, 1), (1, 0)]"
  "pairs image_c (Suc 0, 0) = [(0, 1), (1, 0)]"
  by (simp_all add: pairs_def image_c_def)

lemmas score_eval =
  compute_chi_sum_cells rc_total_def np_sum2_def np_sum_def sum_axis0_def sum_axis1_def
  sq_def minus_f64_def inf_of_def

text \<open>The scores of the three images for the distance 1 and the angles 0 and 90.\<close>

lemma image_scores:
  "compute_chi_sum out (pair_gcm image_a [1] [0, 90] False False 0 0) = Fin 0"
  "compute_chi_sum out (pair_gcm image_a [1] [0, 90] False False 0 (Suc 0)) = Fin (39 / 4)"
  "compute_chi_sum out (pair_gcm image_b [1] [0, 90] False False 0 0) = Fin 4"
  "compute_chi_sum out (pair_gcm image_b [1] [0, 90] False False 0 (Suc 0)) = Fin 3"
  "compute_chi_sum out (pair_gcm image_c [1] [0, 90] False False 0 0) = Fin 2"
  "compute_chi_sum out (pair_gcm image_c [1] [0, 90] False False 0 (Suc 0)) = Fin 2"
  by (simp_all add: pair_gcm_def pairs_image_a pairs_image_b pairs_image_c score_eval
      eval_nat_numeral)

lemma zeroed_same: "zeroed c = zeroed c'"
  by (rule ext)+ (simp add: zeroed_def)

lemmas batch_eval =
  create_matrix_list_def process_image_def score_perm_def Let_def create_matrix_def
  pair_gcm_def pairs_image_a pairs_image_b zeroed_def np_zeros_def set_item_def flat_def
  unravel_index_def getitem_def returned_inputs_def is_nan_def


section \<open>Claims about the batch\<close>

text \<open>
  C4. The claim: the matrix list and the Haralick list have one entry per image, the
  inputs list has one entry per image and candidate, \<open>N * D * A\<close> in all, each entry
  is the best pair known at that point in the scan, and the last entry appended for an
  image is the pair used downstream. For an image that is not the first of its batch the
  entries before its last one are not always the best pair known: see the counterexample
  below. What holds, for non-empty \<open>distances\<close> and \<open>angles\<close> and every image list:
  the batch returns; the lengths are \<open>N\<close>, \<open>N\<close> and \<open>N * D * A\<close>; every entry of the
  inputs list is a pair of one of the distances and one of the angles; the last entry
  appended for image \<open>k\<close>, at index \<open>(k + 1) * D * A - 1\<close>, is the pair for which the
  matrix of image \<open>k\<close> is requested, the Haralick vector of image \<open>k\<close> is computed
  from that matrix, and that entry is the best pair of all the candidates of image \<open>k\<close>
  when none of its scores is a nan; entry \<open>t\<close> of the first image is the best pair of
  its candidates \<open>0\<close> to \<open>t\<close> when none of their scores is a nan and one of them is
  not below \<open>0.0\<close>, the value the grid starts with.
\<close>

theorem create_matrix_list_lengths:
  assumes "distances \<noteq> []" "angles \<noteq> []"
  shows "\<exists>ms ins hs.
     create_matrix_list gcm fresh image_list distances angles = Inr (ms, ins, hs) \<and>
     length ms = length image_list \<and> length hs = length image_list \<and>
     length ins = length image_list * length distances * length angles \<and>
     set ins \<subseteq> set distances \<times> set angles \<and>
     (\<forall>k < length image_list.
        ms ! k = create_matrix gcm (image_list ! k)
                   (Some [fst (ins ! ((k + 1) * (length distances * length angles) - 1))])
                   (Some [snd (ins ! ((k + 1) * (length distances * length angles) - 1))])
                   False True \<and>
        hs ! k = create_haralick ((ms ! k) 0 0) \<and>
        (NaN \<notin> set (scores_of_image gcm fresh distances angles image_list k) \<longrightarrow>
         best_pair_known distances angles
           (scores_of_image gcm fresh distances angles image_list k)
           (length distances * length angles - 1)
           (ins ! ((k + 1) * (length distances * length angles) - 1)))) \<and>
     (\<forall>t < length distances * length angles.
        image_list \<noteq> [] \<and>
        NaN \<notin> set (take (Suc t) (scores_of_image gcm fresh distances angles image_list 0)) \<and>
        (\<exists>j \<le> t. np_le (Fin 0) (scores_of_image gcm fresh distances angles image_list 0 ! j)) \<longrightarrow>
        best_pair_known distances angles
          (scores_of_image gcm fresh distances angles image_list 0) t (ins ! t))"
proof -
  define P where "P = length distances * length angles"
  have P: "0 < P"
    using assms by (simp add: P_def)
  from create_matrix_list_result [OF assms, of gcm fresh image_list]
  obtain tr where
    run: "create_matrix_list gcm fresh image_list distances angles =
        Inr (map (\<lambda>k. optimal_matrix_of gcm fresh distances angles (image_list ! k) (k * P))
               [0..<length image_list],
             tr,
             map (\<lambda>k. create_haralick
                   (optimal_matrix_of gcm fresh distances angles (image_list ! k) (k * P) 0 0))
               [0..<length image_list])"
    and len: "length tr = length image_list * P"
    and la: "\<forall>k < length image_list. tr ! (k * P + (P - 1)) =
        optimal_offset gcm fresh distances angles (image_list ! k) (k * P)"
    unfolding P_def by blast
  have idx: "(k + 1) * P - 1 = k * P + (P - 1)" for k
    using P by (simp add: algebra_simps)
  have mem: "set tr \<subseteq> set distances \<times> set angles"
    by (rule create_matrix_list_inputs [OF run])
  have mat: "optimal_matrix_of gcm fresh distances angles (image_list ! k) (k * P) =
      create_matrix gcm (image_list ! k) (Some [fst (tr ! ((k + 1) * P - 1))])
        (Some [snd (tr ! ((k + 1) * P - 1))]) False True"
    if "k < length image_list" for k
    unfolding idx using la that by (simp add: optimal_matrix_of_def Let_def)
  have bst: "best_pair_known distances angles
      (scores_of_image gcm fresh distances angles image_list k) (P - 1) (tr ! ((k + 1) * P - 1))"
    if "k < length image_list"
      and "NaN \<notin> set (scores_of_image gcm fresh distances angles image_list k)" for k
    unfolding idx
    using la that(1) optimal_offset_first_maximum [OF assms that(2) [unfolded scores_of_image_def]]
    by (simp add: P_def scores_of_image_def)
  have fst: "best_pair_known distances angles
      (scores_of_image gcm fresh distances angles image_list 0) t (tr ! t)"
    if "t < P" "image_list \<noteq> []"
      and "NaN \<notin> set (take (Suc t) (scores_of_image gcm fresh distances angles image_list 0))"
      and "\<exists>j \<le> t. np_le (Fin 0) (scores_of_image gcm fresh distances angles image_list 0 ! j)"
    for t
    using first_image_best_pair_known [OF assms that(2) run that(1) [unfolded P_def]] that(3,4)
    by (simp add: scores_of_image_def)
  from run len mem mat bst fst show ?thesis
    unfolding P_def by (simp add: mult.assoc)
qed

theorem create_matrix_list_lengths_witness:
  "\<exists>ms ins hs.
     create_matrix_list pair_gcm zeroed [image_a, image_b] [1] [0, 90] = Inr (ms, ins, hs) \<and>
     length ms = 2 \<and> length hs = 2 \<and> length ins = 4 \<and>
     best_pair_known [1] [0, 90] [Fin 0, Fin (39 / 4)] 0 (ins ! 0) \<and>
     best_pair_known [1] [0, 90] [Fin 0, Fin (39 / 4)] 1 (ins ! 1) \<and>
     best_pair_known [1] [0, 90] [Fin 4, Fin 3] 1 (ins ! 3)"
  using create_matrix_list_lengths [of "[1]" "[0, 90]" pair_gcm zeroed "[image_a, image_b]"]
  by (auto simp: eval_nat_numeral scores_of_image_def scores_def create_matrix_def image_scores
      less_Suc_eq)

text \<open>
  C4, the counterexample, for the distance 1 and the angles 0 and 90. The scores of
  \<open>image_b\<close> are 4 for the angle 0 and 3 for the angle 90. When \<open>image_b\<close> follows
  \<open>image_a\<close> in a batch, the entry appended when the first candidate of \<open>image_b\<close>
  has been scored, at index 2, is the pair \<open>(1, 90)\<close>: a candidate that has not been
  scored yet for \<open>image_b\<close>, where the only pair known is \<open>(1, 0)\<close>.
\<close>

theorem intermediate_entry_not_best_known:
  "returned_inputs (create_matrix_list pair_gcm zeroed [image_a, image_b] [1] [0, 90]) ! 2 = (1, 90) \<and>
   scores_of_image pair_gcm zeroed [1] [0, 90] [image_a, image_b] 1 = [Fin 4, Fin 3] \<and>
   \<not> best_pair_known [1] [0, 90] [Fin 4, Fin 3] 0 (1, 90)"
  by (simp add: batch_eval score_eval eval_nat_numeral scores_of_image_def scores_def
      best_pair_known_def first_maximum_def)

text \<open>
  C8. If all candidates of image \<open>k\<close> of a batch get the same score \<open>s\<close>, the pair
  selected for image \<open>k\<close> is the first candidate, \<open>(distances[0], angles[0])\<close>: it is
  the last pair appended for the image, and the matrix of the image is requested for it.
  Candidate \<open>t\<close> of image \<open>k\<close> is the slice \<open>(t div A, t mod A)\<close> and meets the
  result array of count \<open>k * D * A + t\<close>.
\<close>

theorem equal_scores_select_first:
  assumes "distances \<noteq> []" "angles \<noteq> []" "k < length image_list"
    and "\<forall>t < length distances * length angles.
           compute_chi_sum (fresh (k * (length distances * length angles) + t))
             (create_matrix gcm (image_list ! k) (Some distances) (Some angles) False False
                (t div length angles) (t mod length angles)) = s"
  shows "\<exists>ms ins hs.
     create_matrix_list gcm fresh image_list distances angles = Inr (ms, ins, hs) \<and>
     ins ! ((k + 1) * (length distances * length angles) - 1) = (distances ! 0, angles ! 0) \<and>
     ms ! k = create_matrix gcm (image_list ! k) (Some [distances ! 0]) (Some [angles ! 0])
                False True"
proof -
  define P where "P = length distances * length angles"
  have P: "0 < P"
    using assms(1,2) by (simp add: P_def)
  from create_matrix_list_result [OF assms(1,2), of gcm fresh image_list]
  obtain tr where
    run: "create_matrix_list gcm fresh image_list distances angles =
        Inr (map (\<lambda>k. optimal_matrix_of gcm fresh distances angles (image_list ! k) (k * P))
               [0..<length image_list],
             tr,
             map (\<lambda>k. create_haralick
                   (optimal_matrix_of gcm fresh distances angles (image_list ! k) (k * P) 0 0))
               [0..<length image_list])"
    and la: "\<forall>k < length image_list. tr ! (k * P + (P - 1)) =
        optimal_offset gcm fresh distances angles (image_list ! k) (k * P)"
    unfolding P_def by blast
  have idx: "(k + 1) * P - 1 = k * P + (P - 1)"
    using P by (simp add: algebra_simps)
  have "best fresh (k * P)
      (create_matrix gcm (image_list ! k) (Some distances) (Some angles) False False)
      (length distances) (length angles) = (0, 0)"
    by (rule best_all_equal) (use assms(4) P in \<open>simp_all add: P_def\<close>)
  then have off: "optimal_offset gcm fresh distances angles (image_list ! k) (k * P) =
      (distances ! 0, angles ! 0)"
    by (simp add: optimal_offset_def)
  with la assms(3) have "tr ! ((k + 1) * P - 1) = (distances ! 0, angles ! 0)"
    unfolding idx by simp
  moreover have "optimal_matrix_of gcm fresh distances angles (image_list ! k) (k * P) =
      create_matrix gcm (image_list ! k) (Some [distances ! 0]) (Some [angles ! 0]) False True"
    by (simp add: optimal_matrix_of_def off)
  ultimately show ?thesis
    using run assms(3) unfolding P_def by simp
qed

theorem equal_scores_select_first_witness:
  "\<exists>ms ins hs.
     create_matrix_list pair_gcm zeroed [image_a, image_c] [1] [0, 90] = Inr (ms, ins, hs) \<and>
     ins ! 3 = (1, 0) \<and>
     ms ! 1 = create_matrix pair_gcm image_c (Some [1]) (Some [0]) False True"
  using equal_scores_select_first
    [of "[1]" "[0, 90]" 1 "[image_a, image_c]" zeroed pair_gcm "Fin 2"]
  by (simp add: create_matrix_def image_scores less_Suc_eq eval_nat_numeral)

text \<open>
  C5. The claim: every output entry of an image, its appended offset pairs included, is
  the same whatever images precede it in the batch. The score grid is allocated once,
  before the loop over the images, so while an image is scanned the cells of the
  candidates not yet scored still hold the scores of the image before, and the pairs
  appended before the last one are read off that grid: see the counterexample below.
  What holds: the matrix of an image, its Haralick vector and the last pair appended
  for it are the same in any two batches that hold the image, at any positions, provided
  the result arrays of its own score computations hold the same in both.
\<close>

theorem image_results_independent_of_batch:
  assumes "distances \<noteq> []" "angles \<noteq> []"
    and "k1 < length batch1" "k2 < length batch2" "batch1 ! k1 = batch2 ! k2"
    and "\<forall>t < length distances * length angles.
           fresh1 (k1 * (length distances * length angles) + t) =
           fresh2 (k2 * (length distances * length angles) + t)"
  shows "\<exists>ms1 ins1 hs1 ms2 ins2 hs2.
     create_matrix_list gcm fresh1 batch1 distances angles = Inr (ms1, ins1, hs1) \<and>
     create_matrix_list gcm fresh2 batch2 distances angles = Inr (ms2, ins2, hs2) \<and>
     ms1 ! k1 = ms2 ! k2 \<and> hs1 ! k1 = hs2 ! k2 \<and>
     ins1 ! ((k1 + 1) * (length distances * length angles) - 1) =
     ins2 ! ((k2 + 1) * (length distances * length angles) - 1)"
proof -
  define P where "P = length distances * length angles"
  have P: "0 < P"
    using assms(1,2) by (simp add: P_def)
  from create_matrix_list_result [OF assms(1,2), of gcm fresh1 batch1]
  obtain tr1 where
    run1: "create_matrix_list gcm fresh1 batch1 distances angles =
        Inr (map (\<lambda>k. optimal_matrix_of gcm fresh1 distances angles (batch1 ! k) (k * P))
               [0..<length batch1],
             tr1,
             map (\<lambda>k. create_haralick
                   (optimal_matrix_of gcm fresh1 distances angles (batch1 ! k) (k * P) 0 0))
               [0..<length batch1])"
    and la1: "\<forall>k < length batch1. tr1 ! (k * P + (P - 1)) =
        optimal_offset gcm fresh1 distances angles (batch1 ! k) (k * P)"
    unfolding P_def by blast
  from create_matrix_list_result [OF assms(1,2), of gcm fresh2 batch2]
  obtain tr2 where
    run2: "create_matrix_list gcm fresh2 batch2 distances angles =
        Inr (map (\<lambda>k. optimal_matrix_of gcm fresh2 distances angles (batch2 ! k) (k * P))
               [0..<length batch2],
             tr2,
             map (\<lambda>k. create_haralick
                   (optimal_matrix_of gcm fresh2 distances angles (batch2 ! k) (k * P) 0 0))
               [0..<length batch2])"
    and la2: "\<forall>k < length batch2. tr2 ! (k * P + (P - 1)) =
        optimal_offset gcm fresh2 distances angles (batch2 ! k) (k * P)"
    unfolding P_def by blast
  have idx: "(k + 1) * P - 1 = k * P + (P - 1)" for k
    using P by (simp add: algebra_simps)
  have off: "optimal_offset gcm fresh1 distances angles (batch1 ! k1) (k1 * P) =
      optimal_offset gcm fresh2 distances angles (batch2 ! k2) (k2 * P)"
    unfolding assms(5)
    by (rule optimal_offset_cong) (use assms(6) in \<open>simp add: P_def\<close>)
  then have mat: "optimal_matrix_of gcm fresh1 distances angles (batch1 ! k1) (k1 * P) =
      optimal_matrix_of gcm fresh2 distances angles (batch2 ! k2) (k2 * P)"
    by (simp add: optimal_matrix_of_def assms(5))
  have "tr1 ! ((k1 + 1) * P - 1) = tr2 ! ((k2 + 1) * P - 1)"
    unfolding idx using la1 la2 assms(3,4) off by simp
  with run1 run2 mat assms(3,4) show ?thesis
    unfolding P_def by simp
qed

theorem image_results_independent_of_batch_witness:
  "\<exists>ms1 ins1 hs1 ms2 ins2 hs2.
     create_matrix_list pair_gcm zeroed [image_b] [1] [0, 90] = Inr (ms1, ins1, hs1) \<and>
     create_matrix_list pair_gcm zeroed [image_a, image_b] [1] [0, 90] = Inr (ms2, ins2, hs2) \<and>
     ms1 ! 0 = ms2 ! 1 \<and> hs1 ! 0 = hs2 ! 1 \<and> ins1 ! 1 = ins2 ! 3"
  using image_results_independent_of_batch
    [of "[1]" "[0, 90]" 0 "[image_b]" 1 "[image_a, image_b]" zeroed zeroed pair_gcm]
  by (simp add: zeroed_same eval_nat_numeral)

text \<open>
  C5, the counterexample, for the distance 1 and the angles 0 and 90. The scores of
  \<open>image_a\<close> are 0 and 39/4, those of \<open>image_b\<close> are 4 and 3 (\<open>image_scores\<close>).
  Alone in a batch, \<open>image_b\<close> appends the pairs \<open>(1, 0)\<close> and \<open>(1, 0)\<close>; after
  \<open>image_a\<close> it appends \<open>(1, 90)\<close> and \<open>(1, 0)\<close>, because the score 39/4 of
  \<open>image_a\<close> for the angle 90 is still in the grid when the first candidate of
  \<open>image_b\<close> has been scored.
\<close>

theorem intermediate_offsets_depend_on_previous_image:
  "returned_inputs (create_matrix_list pair_gcm zeroed [image_b] [1] [0, 90]) =
     [(1, 0), (1, 0)] \<and>
   returned_inputs (create_matrix_list pair_gcm zeroed [image_a, image_b] [1] [0, 90]) =
     [(1, 0), (1, 90), (1, 90), (1, 0)]"
  by (simp add: batch_eval score_eval eval_nat_numeral)


section \<open>Flat sums and sums over both indices\<close>

lemma product_upt_div_mod:
  "List.product [0..<n] [0..<n] = map (\<lambda>t. (t div n, t mod n)) [0..<n * n]"
  by (rule nth_equalityI) (simp_all add: perms_nth)

lemma sum_list_concat_rows:
  "sum_list (concat xss) = sum_list (map sum_list xss)" for xss :: "f64 list list"
  by (induction xss) simp_all

lemma ravel_sum: "np_sum (n * n) (\<lambda>t. f (t div n) (t mod n)) = np_sum2 n f"
proof -
  have "map (\<lambda>t. f (t div n) (t mod n)) [0..<n * n] =
      map (\<lambda>q. f (fst q) (snd q)) (List.product [0..<n] [0..<n])"
    by (simp add: product_upt_div_mod comp_def)
  also have "\<dots> = concat (map (\<lambda>i. map (\<lambda>j. f i j) [0..<n]) [0..<n])"
    by (simp add: product_concat_map map_concat comp_def)
  finally show ?thesis
    by (simp add: np_sum_def np_sum2_def sum_list_concat_rows comp_def)
qed

lemma ravel_dot:
  "np_dot (n * n) (ravel n a) (ravel n b) = np_sum2 n (\<lambda>i j. a i j * b i j)"
  unfolding np_dot_def ravel_def by (rule ravel_sum)

lemma px_plus_y_sum2:
  "px_plus_y m k = np_sum2 (side m) (\<lambda>i j. if i + j = k then cell m i j else 0)"
proof -
  have "px_plus_y m k =
      np_sum (side m * side m)
        (\<lambda>t. if t div side m + t mod side m = k then cell m (t div side m) (t mod side m) else 0)"
    by (simp add: px_plus_y_def ravel_def np_sum_def sum_list_map_filter' cong: if_cong)
  then show ?thesis
    by (simp add: ravel_sum [where f = "\<lambda>i j. if i + j = k then cell m i j else 0"])
qed

section \<open>The features on sample matrices\<close>

lemmas haralick_eval =
  homo_def homo_weight_def contrast_def con_weight_def asm_def energy_def p_def px_def py_def
  ux_def uy_def vx_def vy_def sx_def sy_def ij_def corr_def mean_def stdev_def
  shade_weight_def prom_weight_def cls_shade_def cls_prom_def apply_sum_over_axes_def
  ravel_dot px_plus_y_sum2 np_dot_def np_sum2_def np_sum_def sum_axis0_def sum_axis1_def
  arange_def sq_def cube_def fourth_def minus_f64_def zero_f64_def of_rows_def


text \<open>The matrix with all its weight in cell \<open>(0, 0)\<close>, and the one with all its
  weight in cell \<open>(0, 1)\<close>.\<close>

lemma one_hot_features:
  "create_haralick (of_rows [[1, 0], [0, 0]]) =
     [Fin 1, Fin 1, Fin 0, Fin 1, Fin 1, Fin 0, Fin 0, Fin 0, Fin 0]"
  by (simp add: create_haralick_def haralick_eval eval_nat_numeral)

lemma off_diagonal_features:
  "create_haralick (of_rows [[0, 1], [0, 0]]) =
     [Fin (1 / 2), Fin 1, Fin 1, Fin 1, Fin 1, Fin 1, Fin 0, Fin 0, Fin 0]"
  by (simp add: create_haralick_def haralick_eval eval_nat_numeral)


section \<open>Claims about the features\<close>

text \<open>
  C6. The vector returned by \<open>create_haralick\<close> has exactly nine entries, in the order
  homogeneity, asm, contrast, energy, correlation, mean, stdev, cluster shade, cluster
  prominence.
\<close>

theorem create_haralick_order:
  "length (create_haralick m) = 9 \<and>
   create_haralick m ! 0 = homo m \<and> create_haralick m ! 1 = asm m \<and>
   create_haralick m ! 2 = contrast m \<and> create_haralick m ! 3 = energy m \<and>
   create_haralick m ! 4 = corr m \<and> create_haralick m ! 5 = mean m \<and>
   create_haralick m ! 6 = stdev m \<and> create_haralick m ! 7 = cls_shade m \<and>
   create_haralick m ! 8 = cls_prom m"
  by (simp add: create_haralick_def eval_nat_numeral)






end
